theory Spec2Isabelle
  imports Complex_Main
begin

section \<open>JavaScript numbers\<close>

text \<open>
  A JavaScript number is an IEEE 754 binary64 value: \<open>NaN\<close>, an infinity, or a finite
  double, which is carried as the real number it denotes. The two zeros are not told
  apart. A raw metric read from a dataset is a \<open>jsnum\<close>: the source distinguishes
  \<open>undefined\<close> (field or whole sub-record absent), \<open>null\<close> and a number.
\<close>

datatype number = NaN | PosInfinity | NegInfinity | Fin real

datatype jsnum = Undefined | Null | Num number

subsection \<open>Rounding to the nearest double\<close>

definition pow2 :: "int \<Rightarrow> real" where
  "pow2 k = (if 0 \<le> k then 2 ^ nat k else 1 / 2 ^ nat (- k))"

text \<open>
  The binary exponent of a magnitude, found by halving or doubling at most as often as
  the format has exponents; below \<open>2^(-1022)\<close> it stays at \<open>-1022\<close>, the exponent of
  the subnormal numbers.
\<close>

fun up :: "nat \<Rightarrow> real \<Rightarrow> int" where
  "up 0 x = 0"
| "up (Suc n) x = (if x < 2 then 0 else 1 + up n (x / 2))"

fun down :: "nat \<Rightarrow> real \<Rightarrow> int" where
  "down 0 x = 0"
| "down (Suc n) x = (if 1 \<le> x then 0 else down n (2 * x) - 1)"

definition expo :: "real \<Rightarrow> int" where
  "expo x = (if 1 \<le> \<bar>x\<bar> then up 1024 \<bar>x\<bar> else down 1022 \<bar>x\<bar>)"

text \<open>The nearest integer, a tie going to the even one.\<close>

definition rne :: "real \<Rightarrow> int" where
  "rne q = (let f = \<lfloor>q\<rfloor>
            in if q - real_of_int f < 1 / 2 then f
               else if q - real_of_int f > 1 / 2 then f + 1
               else if even f then f else f + 1)"

text \<open>
  The nearest multiple of the unit in the last place, which is \<open>2^(e - 52)\<close> for a
  magnitude of binary exponent \<open>e\<close>: 53 significant bits.
\<close>

definition rgrid :: "real \<Rightarrow> real" where
  "rgrid x = (let u = pow2 (expo x - 52) in real_of_int (rne (x / u)) * u)"

text \<open>
  Halfway between the largest double and \<open>2^1024\<close>: from there on a result rounds to
  an infinity.
\<close>

definition overflow_bound :: real where
  "overflow_bound = 2 ^ 1024 - 2 ^ 970"

text \<open>
  The double that an exact result is rounded to. It is also the value of a decimal
  literal of the source and of \<open>parseFloat\<close> on a decimal string.
\<close>

definition rnd :: "real \<Rightarrow> number" where
  "rnd x = (if overflow_bound \<le> \<bar>x\<bar> then (if 0 < x then PosInfinity else NegInfinity)
            else Fin (rgrid x))"


text \<open>The finite doubles are the reals that rounding leaves alone.\<close>

definition is_double :: "real \<Rightarrow> bool" where
  "is_double x \<longleftrightarrow> rnd x = Fin x"


subsection \<open>Arithmetic\<close>

text \<open>\<open>ToNumber\<close> of the language on a value that may be missing.\<close>

fun toNumber :: "jsnum \<Rightarrow> number" where
  "toNumber Undefined = NaN"
| "toNumber Null = Fin 0"
| "toNumber (Num n) = n"

fun js_neg :: "number \<Rightarrow> number" where
  "js_neg NaN = NaN"
| "js_neg PosInfinity = NegInfinity"
| "js_neg NegInfinity = PosInfinity"
| "js_neg (Fin x) = Fin (- x)"

text \<open>
  The operators \<open>+\<close>, \<open>-\<close>, \<open>*\<close> and \<open>/\<close> on numbers: the exact result of two finite
  operands is rounded; the other cases are those of IEEE 754.
\<close>

fun js_add :: "number \<Rightarrow> number \<Rightarrow> number" where
  "js_add (Fin x) (Fin y) = rnd (x + y)"
| "js_add NaN b = NaN"
| "js_add a NaN = NaN"
| "js_add PosInfinity NegInfinity = NaN"
| "js_add NegInfinity PosInfinity = NaN"
| "js_add PosInfinity b = PosInfinity"
| "js_add NegInfinity b = NegInfinity"
| "js_add (Fin x) b = b"

definition js_sub :: "number \<Rightarrow> number \<Rightarrow> number" where
  "js_sub a b = js_add a (js_neg b)"

fun js_mul :: "number \<Rightarrow> number \<Rightarrow> number" where
  "js_mul (Fin x) (Fin y) = rnd (x * y)"
| "js_mul NaN b = NaN"
| "js_mul a NaN = NaN"
| "js_mul (Fin x) b = (if x = 0 then NaN else if 0 < x then b else js_neg b)"
| "js_mul a (Fin y) = (if y = 0 then NaN else if 0 < y then a else js_neg a)"
| "js_mul PosInfinity b = b"
| "js_mul NegInfinity b = js_neg b"

fun js_div :: "number \<Rightarrow> number \<Rightarrow> number" where
  "js_div (Fin x) (Fin y) =
     (if y = 0 then (if x = 0 then NaN else if 0 < x then PosInfinity else NegInfinity)
      else rnd (x / y))"
| "js_div NaN b = NaN"
| "js_div a NaN = NaN"
| "js_div (Fin x) b = Fin 0"
| "js_div a (Fin y) = (if 0 \<le> y then a else js_neg a)"
| "js_div a b = NaN"

fun js_lt :: "number \<Rightarrow> number \<Rightarrow> bool" where
  "js_lt (Fin x) (Fin y) = (x < y)"
| "js_lt NaN b = False"
| "js_lt a NaN = False"
| "js_lt PosInfinity b = False"
| "js_lt a NegInfinity = False"
| "js_lt NegInfinity b = True"
| "js_lt (Fin x) PosInfinity = True"

text \<open>\<open>Math.max\<close>, \<open>Math.min\<close> and \<open>Math.abs\<close>.\<close>

fun js_max :: "number \<Rightarrow> number \<Rightarrow> number" where
  "js_max NaN b = NaN"
| "js_max a NaN = NaN"
| "js_max a b = (if js_lt a b then b else a)"

fun js_min :: "number \<Rightarrow> number \<Rightarrow> number" where
  "js_min NaN b = NaN"
| "js_min a NaN = NaN"
| "js_min a b = (if js_lt b a then b else a)"

fun js_abs :: "number \<Rightarrow> number" where
  "js_abs (Fin x) = Fin \<bar>x\<bar>"
| "js_abs NaN = NaN"
| "js_abs a = PosInfinity"

text \<open>
  \<open>Math.round\<close>: the nearest integer, a tie going towards \<open>+\<infinity>\<close>. It is exact: the
  result of a finite double is a double.
\<close>

fun js_round :: "number \<Rightarrow> number" where
  "js_round (Fin x) = Fin (real_of_int \<lfloor>x + 1 / 2\<rfloor>)"
| "js_round a = a"

text \<open>
  \<open>parseFloat(x.toFixed(3))\<close>: \<open>toFixed\<close> takes the sign off and picks the integer
  \<open>n\<close> with \<open>n / 1000\<close> nearest to the exact value of the double, the larger one at a
  tie; \<open>parseFloat\<close> reads the decimal back. From \<open>10^21\<close> on, and for \<open>NaN\<close> and
  the infinities, the string is that of the number itself.
\<close>

fun toFixed3 :: "number \<Rightarrow> number" where
  "toFixed3 (Fin x) =
     (if 10 ^ 21 \<le> \<bar>x\<bar> then Fin x
      else if x < 0 then js_neg (rnd (real_of_int \<lfloor>- x * 1000 + 1 / 2\<rfloor> / 1000))
      else rnd (real_of_int \<lfloor>x * 1000 + 1 / 2\<rfloor> / 1000))"
| "toFixed3 a = a"

text \<open>
  \<open>Math.log10\<close>. The language leaves its last bit to the implementation; it is taken
  to be correctly rounded.
\<close>

fun js_log10 :: "number \<Rightarrow> number" where
  "js_log10 (Fin x) =
     (if x < 0 then NaN else if x = 0 then NegInfinity else rnd (log 10 x))"
| "js_log10 PosInfinity = PosInfinity"
| "js_log10 a = NaN"

section \<open>Strings\<close>

text \<open>
  Strings are lists of 8-bit code units. \<open>toLowerCase\<close> maps the capital letters of
  ASCII and of Latin-1 to their small letters and leaves every other unit alone.
\<close>

definition toLowerChar :: "char \<Rightarrow> char" where
  "toLowerChar c =
     (let n = (of_char c :: nat)
      in if (65 \<le> n \<and> n \<le> 90) \<or> (192 \<le> n \<and> n \<le> 222 \<and> n \<noteq> 215)
         then char_of (n + 32) else c)"

definition toLowerCase :: "string \<Rightarrow> string" where
  "toLowerCase s = map toLowerChar s"

section \<open>Normalization\<close>

text \<open>
  \<open>normalize(value, min, max, higherIsBetter, defaultScore)\<close> of scoringService.js.
  The guard returns the default for \<open>null\<close>, \<open>undefined\<close> and \<open>NaN\<close>. With
  \<open>min = max\<close> the ratio is \<open>0 / 0\<close> and the result \<open>NaN\<close>.
\<close>

fun normalize :: "jsnum \<Rightarrow> number \<Rightarrow> number \<Rightarrow> bool \<Rightarrow> number \<Rightarrow> number" where
  "normalize Undefined mn mx higherIsBetter defaultScore = defaultScore"
| "normalize Null mn mx higherIsBetter defaultScore = defaultScore"
| "normalize (Num NaN) mn mx higherIsBetter defaultScore = defaultScore"
| "normalize (Num v) mn mx higherIsBetter defaultScore =
     (let clamped = js_max mn (js_min mx v);
          ratio = js_div (js_sub clamped mn) (js_sub mx mn);
          scaled = (if higherIsBetter then ratio else js_sub (Fin 1) ratio)
      in js_round (js_mul scaled (Fin 100)))"

section \<open>Weather helpers\<close>

text \<open>
  \<open>weatherSeverityPenalty\<close>: the guard \<open>!weatherId\<close> holds for \<open>undefined\<close>,
  \<open>null\<close>, \<open>NaN\<close> and \<open>0\<close>; the bands follow in the order of the source. An
  infinity passes the guard and falls through every band.
\<close>

fun weatherSeverityPenalty :: "jsnum \<Rightarrow> number" where
  "weatherSeverityPenalty (Num (Fin w)) =
     (if w = 0 then Fin 0
      else if w \<ge> 200 \<and> w < 300 then Fin 70
      else if w \<ge> 300 \<and> w < 400 then Fin 20
      else if w \<ge> 500 \<and> w < 600 then Fin 40
      else if w \<ge> 600 \<and> w < 700 then Fin 60
      else if w \<ge> 700 \<and> w < 800 then Fin 50
      else if w = 800 then Fin 0
      else if w > 800 \<and> w < 810 then Fin 10
      else Fin 0)"
| "weatherSeverityPenalty other = Fin 0"

fun tempComfortScore :: "jsnum \<Rightarrow> number" where
  "tempComfortScore Null = Fin 50"
| "tempComfortScore t =
     normalize (Num (js_abs (js_sub (toNumber t) (Fin 21.5)))) (Fin 0) (Fin 40) False (Fin 50)"

section \<open>The country dataset\<close>

record weatherData =
  temp_celsius :: jsnum
  temp_min :: jsnum
  temp_max :: jsnum
  humidity_pct :: jsnum
  wind_speed_ms :: jsnum
  weather_id :: jsnum

record aqiData =
  aqi_value :: jsnum

record advisoryData =
  advisory_score :: jsnum

record worldBankData =
  lifeExpectancy :: jsnum
  healthcareExpenditure :: jsnum

record profileData =
  capital :: "string option"
  population :: jsnum

text \<open>
  The object built by \<open>fetchAllDataForCountry\<close>. The sub-records \<open>weather\<close>,
  \<open>aqi\<close> and \<open>advisory\<close> are \<open>null\<close> (\<open>None\<close>) when their source failed. The
  last two fields are the properties \<open>_riskTolerance\<close> and \<open>_duration\<close> that
  \<open>scoreCountry\<close> assigns; a freshly fetched object does not have them.
\<close>

record countryData =
  found :: bool
  country :: string
  profile :: profileData
  worldBank :: worldBankData
  weather :: "weatherData option"
  aqi :: "aqiData option"
  advisory :: "advisoryData option"
  riskTolerance_meta :: "string option"
  duration_meta :: "string option"

text \<open>Optional chaining \<open>obj?.field\<close> on a sub-record that may be \<open>null\<close>.\<close>

definition opt_field :: "('a \<Rightarrow> jsnum) \<Rightarrow> 'a option \<Rightarrow> jsnum" where
  "opt_field f r = (case r of None \<Rightarrow> Undefined | Some x \<Rightarrow> f x)"

section \<open>The three scores\<close>

record scoreBreakdown =
  score :: number
  components :: "(string \<times> number) list"

text \<open>\<open>Math.round(Math.max(0, Math.min(100, raw)))\<close>, shared by all four aggregations.\<close>

definition clampRound :: "number \<Rightarrow> number" where
  "clampRound raw = js_round (js_max (Fin 0) (js_min (Fin 100) raw))"

text \<open>
  The sub-component weights are decimal literals, hence the doubles nearest to them;
  the sum is taken from left to right.
\<close>

definition computeTravelRiskScore :: "countryData \<Rightarrow> scoreBreakdown" where
  "computeTravelRiskScore d =
     (let tempScore = (if opt_field temp_celsius (weather d) \<noteq> Undefined
                       then tempComfortScore (opt_field temp_celsius (weather d))
                       else Fin 50);
          aqiScore = normalize (opt_field aqi_value (aqi d)) (Fin 0) (Fin 300) False (Fin 50);
          advisoryScore =
            normalize (opt_field advisory_score (advisory d)) (Fin 1) (Fin 5) False (Fin 50);
          weatherEvtScore =
            js_sub (Fin 100) (weatherSeverityPenalty (opt_field weather_id (weather d)));
          raw = js_add (js_add (js_add (js_mul tempScore (rnd 0.20))
                                       (js_mul aqiScore (rnd 0.30)))
                               (js_mul advisoryScore (rnd 0.35)))
                       (js_mul weatherEvtScore (rnd 0.15))
      in \<lparr> score = clampRound raw,
           components = [(''temperature_comfort'', tempScore),
                         (''air_quality'', aqiScore),
                         (''travel_advisory'', advisoryScore),
                         (''weather_event'', weatherEvtScore)] \<rparr>)"

text \<open>
  The test \<open>profile?.population ? \<dots> : 50\<close>: truthy is a number other than \<open>0\<close> and
  \<open>NaN\<close>.
\<close>

definition popPressure :: "jsnum \<Rightarrow> number" where
  "popPressure p =
     (case p of
        Num NaN \<Rightarrow> Fin 50
      | Num n \<Rightarrow> (if n = Fin 0 then Fin 50
                   else normalize (Num (js_log10 n)) (js_log10 (Fin 100000))
                          (js_log10 (Fin 2000000000)) False (Fin 50))
      | _ \<Rightarrow> Fin 50)"

definition computeHealthInfrastructureScore :: "countryData \<Rightarrow> scoreBreakdown" where
  "computeHealthInfrastructureScore d =
     (let healthExpScore =
            normalize (healthcareExpenditure (worldBank d)) (Fin 1) (Fin 15) True (Fin 50);
          lifeExpScore = normalize (lifeExpectancy (worldBank d)) (Fin 45) (Fin 90) True (Fin 50);
          popPressureScore = popPressure (population (profile d));
          raw = js_add (js_add (js_mul healthExpScore (rnd 0.40))
                               (js_mul lifeExpScore (rnd 0.45)))
                       (js_mul popPressureScore (rnd 0.15))
      in \<lparr> score = clampRound raw,
           components = [(''healthcare_expenditure'', healthExpScore),
                         (''life_expectancy'', lifeExpScore),
                         (''population_pressure'', popPressureScore)] \<rparr>)"

definition computeEnvironmentalStabilityScore :: "countryData \<Rightarrow> scoreBreakdown" where
  "computeEnvironmentalStabilityScore d =
     (let aqiEnvScore = normalize (opt_field aqi_value (aqi d)) (Fin 0) (Fin 300) False (Fin 50);
          volatilityScore =
            (if opt_field temp_max (weather d) \<noteq> Undefined
                \<and> opt_field temp_min (weather d) \<noteq> Undefined
             then normalize (Num (js_sub (toNumber (opt_field temp_max (weather d)))
                                         (toNumber (opt_field temp_min (weather d)))))
                            (Fin 0) (Fin 20) False (Fin 50)
             else Fin 50);
          windScore =
            normalize (opt_field wind_speed_ms (weather d)) (Fin 0) (Fin 20) False (Fin 50);
          humidityScore =
            (if opt_field humidity_pct (weather d) \<noteq> Undefined
             then normalize (Num (js_abs (js_sub (toNumber (opt_field humidity_pct (weather d)))
                                                 (Fin 45))))
                            (Fin 0) (Fin 55) False (Fin 50)
             else Fin 50);
          raw = js_add (js_add (js_add (js_mul aqiEnvScore (rnd 0.35))
                                       (js_mul volatilityScore (rnd 0.25)))
                               (js_mul windScore (rnd 0.15)))
                       (js_mul humidityScore (rnd 0.25))
      in \<lparr> score = clampRound raw,
           components = [(''air_quality_stability'', aqiEnvScore),
                         (''temperature_volatility'', volatilityScore),
                         (''wind_comfort'', windScore),
                         (''humidity_comfort'', humidityScore)] \<rparr>)"

section \<open>Dynamic weight profiles\<close>

text \<open>
  The three local variables \<open>travelRisk\<close>, \<open>healthInfra\<close>, \<open>envStab\<close> of
  \<open>getDynamicWeights\<close> are carried as a triple, in this order. Each adjustment ends
  with \<open>sum = travelRisk + healthInfra + envStab\<close> and three divisions by it.
\<close>

definition renormalize :: "number \<times> number \<times> number \<Rightarrow> number \<times> number \<times> number" where
  "renormalize w =
     (case w of (t, h, e) \<Rightarrow>
        (let s = js_add (js_add t h) e in (js_div t s, js_div h s, js_div e s)))"

text \<open>The values of the three variables when the \<open>return\<close> statement is reached.\<close>

definition dynamicWeightsUnrounded :: "string \<Rightarrow> string \<Rightarrow> number \<times> number \<times> number" where
  "dynamicWeightsUnrounded riskTolerance duration =
     (let rt = toLowerCase riskTolerance;
          d = toLowerCase duration;
          base = (rnd 0.40, rnd 0.35, rnd 0.25);
          afterRisk =
            (case base of (t, h, e) \<Rightarrow>
               if rt = ''low''
               then renormalize (js_add t (rnd 0.10), js_sub h (rnd 0.10), js_add e (rnd 0.05))
               else if rt = ''high''
               then renormalize (js_sub t (rnd 0.10), js_sub h (rnd 0.05), js_add e (rnd 0.10))
               else (t, h, e))
      in case afterRisk of (t, h, e) \<Rightarrow>
           if d = ''long''
           then renormalize (js_sub t (rnd 0.05), js_add h (rnd 0.10), js_sub e (rnd 0.05))
           else renormalize (t, js_sub h (rnd 0.08), js_add e (rnd 0.08)))"

record weightProfile =
  travel_risk_weight :: number
  health_infrastructure_weight :: number
  environmental_stability_weight :: number

definition getDynamicWeights :: "string \<Rightarrow> string \<Rightarrow> weightProfile" where
  "getDynamicWeights riskTolerance duration =
     (case dynamicWeightsUnrounded riskTolerance duration of (t, h, e) \<Rightarrow>
        \<lparr> travel_risk_weight = toFixed3 t,
          health_infrastructure_weight = toFixed3 h,
          environmental_stability_weight = toFixed3 e \<rparr>)"

section \<open>The master scoring function\<close>

text \<open>
  \<open>scoreCountry\<close> assigns two properties of the object it is given, so the model
  returns the object as it is afterwards together with the result. The reasoning
  sentences only read the dataset and the scores; they are left out of the result.
\<close>

record scoreResult =
  travel_risk_score :: scoreBreakdown
  health_infrastructure_score :: scoreBreakdown
  environmental_stability_score :: scoreBreakdown
  composite_score :: number
  dynamic_weights :: weightProfile

definition scoreCountry :: "countryData \<Rightarrow> string \<Rightarrow> string \<Rightarrow> countryData \<times> scoreResult" where
  "scoreCountry countryData riskTolerance duration =
     (let travelRisk = computeTravelRiskScore countryData;
          healthInfra = computeHealthInfrastructureScore countryData;
          envStab = computeEnvironmentalStabilityScore countryData;
          weights = getDynamicWeights riskTolerance duration;
          compositeScore =
            js_add (js_add (js_mul (score travelRisk) (travel_risk_weight weights))
                           (js_mul (score healthInfra) (health_infrastructure_weight weights)))
                   (js_mul (score envStab) (environmental_stability_weight weights));
          finalScore = clampRound compositeScore
      in (countryData\<lparr> riskTolerance_meta := Some riskTolerance,
                        duration_meta := Some duration \<rparr>,
          \<lparr> travel_risk_score = travelRisk,
            health_infrastructure_score = healthInfra,
            environmental_stability_score = envStab,
            composite_score = finalScore,
            dynamic_weights = weights \<rparr>))"

section \<open>Scoring an object held by reference\<close>

text \<open>
  The route hands \<open>scoreCountry\<close> the very object that \<open>getOrFetch\<close> returned, which
  is the object stored in the cache. Objects live in a heap indexed by references; the
  cache stores references.
\<close>

type_synonym ref = nat
type_synonym heap = "ref \<rightharpoonup> countryData"

definition scoreCountry_at :: "heap \<Rightarrow> ref \<Rightarrow> string \<Rightarrow> string \<Rightarrow> heap \<times> scoreResult option" where
  "scoreCountry_at h r riskTolerance duration =
     (case h r of
        None \<Rightarrow> (h, None)
      | Some d \<Rightarrow>
          (case scoreCountry d riskTolerance duration of
             (d', res) \<Rightarrow> (h(r \<mapsto> d'), Some res)))"

section \<open>The TTL cache with in-flight deduplication\<close>

text \<open>Times are milliseconds since the epoch, as \<open>Date.now()\<close> returns them.\<close>

definition TTL_MS :: int where
  "TTL_MS = 60 * 60 * 1000"

record 'v cacheEntry =
  data :: 'v
  expiresAt :: int

text \<open>
  The state of cacheService.js is the two maps \<open>store\<close> and \<open>inFlight\<close>. The other
  fields record what the event loop holds while calls are suspended:
  \<^item> \<open>promiseKey p\<close> is the key that the callbacks of the pending fetch promise
    \<open>p\<close> close over (\<open>None\<close> once \<open>p\<close> has settled);
  \<^item> \<open>waiting p\<close> lists the callers of \<open>getOrFetch\<close> suspended on \<open>p\<close>;
  \<^item> \<open>replies c\<close> is what the call of caller \<open>c\<close> resolved to, \<open>(Inr result,
    cacheHit)\<close>, or was rejected with, \<open>(Inl error, cacheHit)\<close>;
  \<^item> \<open>producerCalls key\<close> counts the invocations of \<open>fetchFn\<close> for the key.
\<close>

type_synonym caller = nat

record ('e, 'v) world =
  store :: "string \<rightharpoonup> 'v cacheEntry"
  inFlight :: "string \<rightharpoonup> nat"
  promiseKey :: "nat \<rightharpoonup> string"
  waiting :: "nat \<Rightarrow> caller list"
  replies :: "caller \<rightharpoonup> ('e + 'v) \<times> bool"
  producerCalls :: "string \<Rightarrow> nat"
  nextPromise :: nat

definition initial_world :: "('e, 'v) world" where
  "initial_world =
     \<lparr> store = Map.empty, inFlight = Map.empty, promiseKey = Map.empty,
       waiting = (\<lambda>_. []), replies = Map.empty, producerCalls = (\<lambda>_. 0),
       nextPromise = 0 \<rparr>"

text \<open>\<open>get(key)\<close>: \<open>Some value\<close> is \<open>{data: value, hit: true}\<close>, \<open>None\<close> a miss.\<close>

definition cache_get :: "int \<Rightarrow> string \<Rightarrow> ('e, 'v) world \<Rightarrow> 'v option \<times> ('e, 'v) world" where
  "cache_get now key w =
     (case store w key of
        None \<Rightarrow> (None, w)
      | Some entry \<Rightarrow>
          if now > expiresAt entry
          then (None, w\<lparr> store := (store w)(key := None) \<rparr>)
          else (Some (data entry), w))"

text \<open>\<open>set(key, data)\<close>.\<close>

definition cache_set :: "int \<Rightarrow> string \<Rightarrow> 'v \<Rightarrow> ('e, 'v) world \<Rightarrow> ('e, 'v) world" where
  "cache_set now key v w =
     w\<lparr> store := (store w)(key \<mapsto> \<lparr> data = v, expiresAt = now + TTL_MS \<rparr>) \<rparr>"

text \<open>
  \<open>getOrFetch(key, fetchFn)\<close> up to its first suspension point. JavaScript runs this
  part without interruption. A hit resolves at once; otherwise the caller is suspended
  on the promise already registered for the key, or \<open>fetchFn\<close> is invoked and the new
  promise registered. \<open>fetchFn\<close> is taken to return a promise, as the asynchronous
  function that the route passes does; what the promise settles to is an event of its
  own.
\<close>

definition getOrFetch_call :: "caller \<Rightarrow> int \<Rightarrow> string \<Rightarrow> ('e, 'v) world \<Rightarrow> ('e, 'v) world" where
  "getOrFetch_call c now key w =
     (case cache_get now key w of
        (Some v, w1) \<Rightarrow> w1\<lparr> replies := (replies w1)(c \<mapsto> (Inr v, True)) \<rparr>
      | (None, w1) \<Rightarrow>
          (case inFlight w1 key of
             Some p \<Rightarrow> w1\<lparr> waiting := (waiting w1)(p := waiting w1 p @ [c]) \<rparr>
           | None \<Rightarrow>
               (let p = nextPromise w1
                in w1\<lparr> producerCalls := (producerCalls w1)(key := producerCalls w1 key + 1),
                       promiseKey := (promiseKey w1)(p \<mapsto> key),
                       inFlight := (inFlight w1)(key \<mapsto> p),
                       waiting := (waiting w1)(p := [c]),
                       nextPromise := p + 1 \<rparr>)))"

text \<open>Every suspended caller receives the same outcome, with \<open>cacheHit: false\<close>.\<close>

fun deliver :: "caller list \<Rightarrow> ('e + 'v) \<Rightarrow> (caller \<rightharpoonup> ('e + 'v) \<times> bool) \<Rightarrow> (caller \<rightharpoonup> ('e + 'v) \<times> bool)" where
  "deliver [] outcome rs = rs"
| "deliver (c # cs) outcome rs = deliver cs outcome (rs(c \<mapsto> (outcome, False)))"

text \<open>
  The producer behind promise \<open>p\<close> settles: the \<open>then\<close> callback stores the value
  and deletes the registration, the \<open>catch\<close> callback only deletes the registration;
  then the suspended callers resume.
\<close>

definition settle :: "nat \<Rightarrow> ('e + 'v) \<Rightarrow> int \<Rightarrow> ('e, 'v) world \<Rightarrow> ('e, 'v) world" where
  "settle p outcome now w =
     (case promiseKey w p of
        None \<Rightarrow> w
      | Some key \<Rightarrow>
          (let w1 = (case outcome of Inr v \<Rightarrow> cache_set now key v w | Inl err \<Rightarrow> w);
               w2 = w1\<lparr> inFlight := (inFlight w1)(key := None),
                        promiseKey := (promiseKey w1)(p := None) \<rparr>
           in w2\<lparr> replies := deliver (waiting w2 p) outcome (replies w2),
                   waiting := (waiting w2)(p := []) \<rparr>))"

datatype ('e, 'v) event =
    Call caller string int
  | Settle nat "'e + 'v" int

fun step :: "('e, 'v) event \<Rightarrow> ('e, 'v) world \<Rightarrow> ('e, 'v) world" where
  "step (Call c key now) w = getOrFetch_call c now key w"
| "step (Settle p outcome now) w = settle p outcome now w"

fun run :: "('e, 'v) event list \<Rightarrow> ('e, 'v) world \<Rightarrow> ('e, 'v) world" where
  "run [] w = w"
| "run (e # es) w = run es (step e w)"

fun is_settle_of :: "nat \<Rightarrow> ('e, 'v) event \<Rightarrow> bool" where
  "is_settle_of p (Settle q outcome now) = (q = p)"
| "is_settle_of p (Call c key now) = False"

fun calls_key :: "string \<Rightarrow> ('e, 'v) event \<Rightarrow> caller option" where
  "calls_key k (Call c key now) = (if key = k then Some c else None)"
| "calls_key k (Settle q outcome now) = None"

text \<open>The callers that invoke \<open>getOrFetch\<close> on key \<open>k\<close> in a trace.\<close>

definition callers_of :: "string \<Rightarrow> ('e, 'v) event list \<Rightarrow> caller list" where
  "callers_of k es = List.map_filter (calls_key k) es"

text \<open>
  Registrations and pending promises correspond one to one, and promise identities
  from \<open>nextPromise\<close> on are unused.
\<close>

definition consistent :: "('e, 'v) world \<Rightarrow> bool" where
  "consistent w \<longleftrightarrow>
     (\<forall>p k. promiseKey w p = Some k \<longrightarrow> inFlight w k = Some p)
     \<and> (\<forall>k p. inFlight w k = Some p \<longrightarrow> promiseKey w p = Some k)
     \<and> (\<forall>p. nextPromise w \<le> p \<longrightarrow> promiseKey w p = None)"

text \<open>A fetch for \<open>k\<close> is in flight behind promise \<open>p\<close>, and \<open>k\<close> has no entry.\<close>

definition pending_on :: "('e, 'v) world \<Rightarrow> string \<Rightarrow> nat \<Rightarrow> bool" where
  "pending_on w k p \<longleftrightarrow>
     inFlight w k = Some p \<and> promiseKey w p = Some k \<and> store w k = None"

section \<open>The analyze route up to the fan-out\<close>

text \<open>
  A parsed JSON value; \<open>JUndefined\<close> is a property that the body does not have. An
  object is the list of its members, with distinct names.
\<close>

datatype json =
    JUndefined
  | JNull
  | JBool bool
  | JNumber real
  | JString string
  | JArray "json list"
  | JObject "(string \<times> json) list"

text \<open>The three properties that the route destructures from the request body.\<close>

record body =
  countries :: json
  riskTolerance :: json
  duration :: json

datatype js_error = TypeError

definition VALID_RISK :: "string list" where
  "VALID_RISK = [''low'', ''moderate'', ''high'']"

definition VALID_DURATION :: "string list" where
  "VALID_DURATION = [''short'', ''long'']"

definition MAX_COUNTRIES :: nat where
  "MAX_COUNTRIES = 10"

definition MIN_COUNTRIES :: nat where
  "MIN_COUNTRIES = 3"

text \<open>White space of the language among 8-bit code units: TAB to CR, space, NBSP.\<close>

definition isWhiteSpace :: "char \<Rightarrow> bool" where
  "isWhiteSpace c =
     (let n = (of_char c :: nat) in (9 \<le> n \<and> n \<le> 13) \<or> n = 32 \<or> n = 160)"

definition trim :: "string \<Rightarrow> string" where
  "trim s = rev (dropWhile isWhiteSpace (rev (dropWhile isWhiteSpace s)))"

text \<open>The test that an entry is not a string or is blank after \<open>trim\<close>.\<close>

fun badEntry :: "json \<Rightarrow> bool" where
  "badEntry (JString s) = (trim s = [])"
| "badEntry other = True"

text \<open>
  \<open>x?.toLowerCase?.()\<close>: \<open>undefined\<close> (\<open>None\<close>) for a nullish \<open>x\<close> and for a value
  without a property \<open>toLowerCase\<close> or with a nullish one; the lowered string for a
  string. A parsed object may carry a member named \<open>toLowerCase\<close>; a member that
  is neither nullish nor a function is called all the same, which throws.
\<close>

fun optLowerCase :: "json \<Rightarrow> js_error + string option" where
  "optLowerCase (JString s) = Inr (Some (toLowerCase s))"
| "optLowerCase (JObject ms) =
     (case map_of ms ''toLowerCase'' of
        None \<Rightarrow> Inr None
      | Some JUndefined \<Rightarrow> Inr None
      | Some JNull \<Rightarrow> Inr None
      | Some other \<Rightarrow> Inl TypeError)"
| "optLowerCase other = Inr None"

text \<open>\<open>list.includes(x)\<close> for \<open>x\<close> a string or \<open>undefined\<close>.\<close>

definition js_includes :: "string list \<Rightarrow> string option \<Rightarrow> bool" where
  "js_includes xs x = (case x of None \<Rightarrow> False | Some s \<Rightarrow> s \<in> set xs)"

text \<open>A name between double quotes, as the error messages show it.\<close>

definition quoted :: "string \<Rightarrow> string" where
  "quoted s = CHR 0x22 # s @ [CHR 0x22]"

definition countriesErrors :: "json \<Rightarrow> string list" where
  "countriesErrors cs =
     (case cs of
        JArray xs \<Rightarrow>
          if length xs < MIN_COUNTRIES
          then [quoted ''countries'' @ '' must be an array of at least 3 country names.'']
          else if length xs > MAX_COUNTRIES
          then [''Maximum 10 countries per request.'']
          else if list_ex badEntry xs
          then [''All entries in '' @ quoted ''countries'' @ '' must be non-empty strings.'']
          else []
      | _ \<Rightarrow> [quoted ''countries'' @ '' must be an array of at least 3 country names.''])"

definition validateInput :: "body \<Rightarrow> js_error + string list" where
  "validateInput b =
     (let errors1 = countriesErrors (countries b)
      in case optLowerCase (riskTolerance b) of
           Inl err \<Rightarrow> Inl err
         | Inr rt \<Rightarrow>
             (let errors2 =
                    (if \<not> js_includes VALID_RISK rt
                     then errors1 @ [quoted ''riskTolerance'' @ '' must be one of: low, moderate, high.'']
                     else errors1)
              in case optLowerCase (duration b) of
                   Inl err \<Rightarrow> Inl err
                 | Inr dur \<Rightarrow>
                     Inr (if \<not> js_includes VALID_DURATION dur
                          then errors2 @ [quoted ''duration'' @ '' must be one of: short, long.'']
                          else errors2)))"

text \<open>\<open>[...new Set(xs)]\<close>: the elements in the order of their first insertion.\<close>

fun set_add_all :: "'a list \<Rightarrow> 'a list \<Rightarrow> 'a list" where
  "set_add_all seen [] = seen"
| "set_add_all seen (x # xs) =
     set_add_all (if x \<in> set seen then seen else seen @ [x]) xs"

definition uniqueCountries :: "string list \<Rightarrow> string list" where
  "uniqueCountries names = set_add_all [] (map trim names)"

text \<open>
  The array as a list of strings. The route calls \<open>c.trim()\<close> on every entry, which
  throws on an entry that is not a string; validation has excluded that.
\<close>

fun asStrings :: "json list \<Rightarrow> string list option" where
  "asStrings [] = Some []"
| "asStrings (JString s # xs) = map_option ((#) s) (asStrings xs)"
| "asStrings (other # xs) = None"

text \<open>
  What the handler does before its first suspension point: it throws, answers with
  status 400 and the error list, or goes on to call \<open>getOrFetch\<close> once for each
  unique name, under the key \<open>country:\<close> followed by the lowered name.
\<close>

datatype outcome =
    Thrown js_error
  | Respond400 "string list"
  | Fetch string string "(string \<times> string) list"

definition cacheKey :: "string \<Rightarrow> string" where
  "cacheKey countryName = ''country:'' @ toLowerCase countryName"

definition analyze :: "body \<Rightarrow> outcome" where
  "analyze b =
     (case validateInput b of
        Inl err \<Rightarrow> Thrown err
      | Inr validationErrors \<Rightarrow>
          if length validationErrors > 0 then Respond400 validationErrors
          else (case (riskTolerance b, duration b, countries b) of
                  (JString rt, JString dur, JArray xs) \<Rightarrow>
                    (case asStrings xs of
                       Some names \<Rightarrow>
                         Fetch (toLowerCase rt) (toLowerCase dur)
                           (map (\<lambda>n. (n, cacheKey n)) (uniqueCountries names))
                     | None \<Rightarrow> Thrown TypeError)
                | _ \<Rightarrow> Thrown TypeError))"

section \<open>The analyze route after the fan-out\<close>

text \<open>
  What \<open>Promise.all\<close> hands to the rest of the handler, one item per unique country:
  the object that \<open>getOrFetch\<close> returned, which is the object in the cache, by
  reference; or the failure object that the \<open>catch\<close> block builds when \<open>getOrFetch\<close>
  rejected, with the country and the error text.
\<close>

text \<open>The two assignments of \<open>scoreCountry\<close> on the object it is given.\<close>

definition stamp :: "string \<Rightarrow> string \<Rightarrow> countryData \<Rightarrow> countryData" where
  "stamp rt dur d = d\<lparr> riskTolerance_meta := Some rt, duration_meta := Some dur \<rparr>"

datatype fetched = FromCache ref | Failure string string

text \<open>
  Step 4: \<open>allData.filter((d) => d.found)\<close> and its complement, of which the
  response keeps the country names.
\<close>

fun validData :: "heap \<Rightarrow> fetched list \<Rightarrow> ref list" where
  "validData h [] = []"
| "validData h (FromCache r # xs) =
     (case h r of
        Some d \<Rightarrow> (if found d then r # validData h xs else validData h xs)
      | None \<Rightarrow> validData h xs)"
| "validData h (Failure c e # xs) = validData h xs"

fun errorData :: "heap \<Rightarrow> fetched list \<Rightarrow> string list" where
  "errorData h [] = []"
| "errorData h (FromCache r # xs) =
     (case h r of
        Some d \<Rightarrow> (if found d then errorData h xs else country d # errorData h xs)
      | None \<Rightarrow> errorData h xs)"
| "errorData h (Failure c e # xs) = c # errorData h xs"

text \<open>
  Step 5: \<open>validData.map\<close> scores the objects one after the other, each through its
  reference; the entries it builds are new objects that only read the dataset.
\<close>

fun scoreAll :: "heap \<Rightarrow> ref list \<Rightarrow> string \<Rightarrow> string \<Rightarrow> heap \<times> (ref \<times> scoreResult) list" where
  "scoreAll h [] rt dur = (h, [])"
| "scoreAll h (r # rs) rt dur =
     (case scoreCountry_at h r rt dur of
        (h1, None) \<Rightarrow> scoreAll h1 rs rt dur
      | (h1, Some res) \<Rightarrow>
          (case scoreAll h1 rs rt dur of (h2, out) \<Rightarrow> (h2, (r, res) # out)))"

text \<open>
  Step 6: \<open>rankResults\<close> sorts a copy of the list with the comparator
  \<open>b.scores.composite_score - a.scores.composite_score\<close>, and numbers the entries
  from 1; the labels are left out. The sort of the language is stable, and on finite
  scores the comparator orders by descending score. A composite score is always finite
  (lemma \<open>composite_is_score\<close>), so the key of the other numbers is never used.
\<close>

definition rank_key :: "number \<Rightarrow> real" where
  "rank_key n = (case n of Fin x \<Rightarrow> - x | _ \<Rightarrow> 0)"

definition rankResults :: "(ref \<times> scoreResult) list \<Rightarrow> (nat \<times> ref \<times> scoreResult) list" where
  "rankResults scoredCountries =
     (let sorted = sort_key (\<lambda>entry. rank_key (composite_score (snd entry))) scoredCountries
      in zip [1 ..< Suc (length sorted)] sorted)"

text \<open>
  Step 7: status 404 with the failed countries when no country is valid, otherwise the
  ranked results with the failed countries. Both only read what was fetched.
\<close>

datatype response =
    NotFound404 "string list"
  | Ok200 "(nat \<times> ref \<times> scoreResult) list" "string list"

definition analyze_finish :: "heap \<Rightarrow> fetched list \<Rightarrow> string \<Rightarrow> string \<Rightarrow> heap \<times> response" where
  "analyze_finish h allData rt dur =
     (if validData h allData = [] then (h, NotFound404 (errorData h allData))
      else (case scoreAll h (validData h allData) rt dur of
              (h1, scoredCountries) \<Rightarrow>
                (h1, Ok200 (rankResults scoredCountries) (errorData h allData))))"

section \<open>Notions used in the statements\<close>

text \<open>
  A dataset in which every raw metric is absent: the three optional sub-records are
  \<open>null\<close>, and the World Bank values and the population are \<open>null\<close> or missing.
\<close>

definition all_absent :: "countryData \<Rightarrow> bool" where
  "all_absent d \<longleftrightarrow>
     weather d = None \<and> aqi d = None \<and> advisory d = None
     \<and> lifeExpectancy (worldBank d) \<in> {Null, Undefined}
     \<and> healthcareExpenditure (worldBank d) \<in> {Null, Undefined}
     \<and> population (profile d) \<in> {Null, Undefined}"

definition absent_country :: countryData where
  "absent_country =
     \<lparr> found = True, country = ''Atlantis'',
       profile = \<lparr> capital = None, population = Null \<rparr>,
       worldBank = \<lparr> lifeExpectancy = Null, healthcareExpenditure = Null \<rparr>,
       weather = None, aqi = None, advisory = None,
       riskTolerance_meta = None, duration_meta = None \<rparr>"

text \<open>
  A dataset with ideal weather, the worst advisory score and nothing else: the scores
  are 50, 50 and 83.
\<close>

definition calm_country :: countryData where
  "calm_country =
     \<lparr> found = True, country = ''Erewhon'',
       profile = \<lparr> capital = Some ''Coldharbour'', population = Null \<rparr>,
       worldBank = \<lparr> lifeExpectancy = Null, healthcareExpenditure = Null \<rparr>,
       weather = Some \<lparr> temp_celsius = Num (Fin 21.5), temp_min = Num (Fin 21.5),
                        temp_max = Num (Fin 21.5), humidity_pct = Num (Fin 45),
                        wind_speed_ms = Num (Fin 0), weather_id = Num (Fin 800) \<rparr>,
       aqi = None,
       advisory = Some \<lparr> advisory_score = Num (Fin 5) \<rparr>,
       riskTolerance_meta = None, duration_meta = None \<rparr>"

definition weights_of :: "number \<times> number \<times> number \<Rightarrow> weightProfile" where
  "weights_of w =
     (case w of (t, h, e) \<Rightarrow>
        \<lparr> travel_risk_weight = t, health_infrastructure_weight = h,
          environmental_stability_weight = e \<rparr>)"

text \<open>
  A weight profile is made of three finite numbers, none negative, whose sum is one
  bounded_by a thousandth, both as the real sum of the three doubles and as the double
  that the additions of the language give.
\<close>

definition weights_ok :: "weightProfile \<Rightarrow> bool" where
  "weights_ok w \<longleftrightarrow>
     (case (travel_risk_weight w, health_infrastructure_weight w,
            environmental_stability_weight w) of
        (Fin a, Fin b, Fin c) \<Rightarrow>
           0 \<le> a \<and> 0 \<le> b \<and> 0 \<le> c \<and> \<bar>a + b + c - 1\<bar> \<le> 1 / 1000
           \<and> (case js_add (js_add (Fin a) (Fin b)) (Fin c) of
                 Fin s \<Rightarrow> \<bar>s - 1\<bar> \<le> 1 / 1000
               | _ \<Rightarrow> False)
      | _ \<Rightarrow> False)"

text \<open>The composite formula applied to three scores and a weight profile.\<close>

definition composite_of :: "number \<Rightarrow> number \<Rightarrow> number \<Rightarrow> weightProfile \<Rightarrow> number" where
  "composite_of t h e w =
     clampRound (js_add (js_add (js_mul t (travel_risk_weight w))
                                (js_mul h (health_infrastructure_weight w)))
                        (js_mul e (environmental_stability_weight w)))"

text \<open>
  The composite as the specification words it: the three scores of the dataset blended
  with the weights before they are rounded to three decimals.
\<close>

definition composite_unrounded_spec :: "countryData \<Rightarrow> string \<Rightarrow> string \<Rightarrow> number" where
  "composite_unrounded_spec d rt dur =
     composite_of (score (computeTravelRiskScore d))
                  (score (computeHealthInfrastructureScore d))
                  (score (computeEnvironmentalStabilityScore d))
                  (weights_of (dynamicWeightsUnrounded rt dur))"

text \<open>An integer score between 0 and 100, and a finite number of bounded magnitude.\<close>

definition is_score :: "number \<Rightarrow> bool" where
  "is_score n \<longleftrightarrow> (\<exists>i::int. n = Fin (real_of_int i) \<and> 0 \<le> i \<and> i \<le> 100)"

definition bounded_by :: "real \<Rightarrow> number \<Rightarrow> bool" where
  "bounded_by k n \<longleftrightarrow> (\<exists>x. n = Fin x \<and> \<bar>x\<bar> \<le> k)"

text \<open>
  A dataset without metrics held in the heap at reference 0, and a cache whose entry
  for its key, written at time 0, is that reference.
\<close>

definition cached_heap :: heap where
  "cached_heap = Map.empty(0 \<mapsto> absent_country)"

definition cached_world :: "(string, ref) world" where
  "cached_world = cache_set 0 ''country:atlantis'' 0 initial_world"

text \<open>
  Three overlapping calls for one key and a call for another key, all made while the
  first producer is pending.
\<close>

definition herd :: "(string, nat) event list" where
  "herd = [Call 2 ''country:japan'' 1001, Call 3 ''country:peru'' 1002,
           Call 4 ''country:japan'' 1003]"

text \<open>
  A cache whose entry for one key, written at time 0, has expired by time 4000000, and
  two calls that join the fetch started then.
\<close>

definition stale_world :: "(string, nat) world" where
  "stale_world = cache_set 0 ''country:japan'' 7 initial_world"

definition joiners :: "(string, nat) event list" where
  "joiners = [Call 2 ''country:japan'' 4000001, Call 3 ''country:japan'' 4000002]"

text \<open>
  A request that names one country twice, in two letter cases, and a request whose
  \<open>riskTolerance\<close> is an object with a member named \<open>toLowerCase\<close>.
\<close>

definition twice_body :: body where
  "twice_body =
     \<lparr> countries = JArray [JString ''Germany'', JString ''germany'', JString ''Japan''],
       riskTolerance = JString ''low'',
       duration = JString ''short'' \<rparr>"

definition member_body :: body where
  "member_body =
     \<lparr> countries = JArray [JString ''Peru'', JString ''Chile'', JString ''Japan''],
       riskTolerance = JObject [(''toLowerCase'', JBool True)],
       duration = JString ''short'' \<rparr>"

text \<open>
  The requests that validation is meant to let through: three to ten entries, each a
  string that is not blank, and a risk tolerance and a duration among the valid ones
  up to letter case.
\<close>

definition acceptable :: "body \<Rightarrow> bool" where
  "acceptable b \<longleftrightarrow>
     (case countries b of
        JArray xs \<Rightarrow> 3 \<le> length xs \<and> length xs \<le> 10 \<and> \<not> list_ex badEntry xs
      | _ \<Rightarrow> False)
     \<and> (case riskTolerance b of
          JString s \<Rightarrow> toLowerCase s \<in> set VALID_RISK
        | _ \<Rightarrow> False)
     \<and> (case duration b of
          JString s \<Rightarrow> toLowerCase s \<in> set VALID_DURATION
        | _ \<Rightarrow> False)"

text \<open>The first occurrences of the elements of a list, in order.\<close>

fun firsts :: "'a list \<Rightarrow> 'a list" where
  "firsts [] = []"
| "firsts (x # xs) = x # firsts (filter (\<lambda>y. y \<noteq> x) xs)"

section \<open>Properties of the scoring engine\<close>

subsection \<open>Rounding to the nearest double\<close>

lemma up_numeral: "up (numeral n) x = (if x < 2 then 0 else 1 + up (pred_numeral n) (x / 2))"
  by (simp add: numeral_eq_Suc)

lemma down_numeral:
  "down (numeral n) x = (if 1 \<le> x then 0 else down (pred_numeral n) (2 * x) - 1)"
  by (simp add: numeral_eq_Suc)

lemma million_fits: "1000000 < overflow_bound"
proof -
  have "(2::real) ^ 1024 = 2 ^ 970 * 2 ^ 54" by (simp flip: power_add)
  then have "overflow_bound = 2 ^ 970 * (2 ^ 54 - 1)"
    by (simp add: overflow_bound_def algebra_simps)
  moreover have "(1::real) \<le> 2 ^ 970" by simp
  moreover have "(1000000::real) < 2 ^ 54 - 1" by simp
  ultimately show ?thesis
    by (metis (no_types, opaque_lifting) less_le_trans mult.commute mult.right_neutral mult_left_mono
        zero_le_numeral order_less_imp_le order_trans less_eq_real_def)
qed

lemma rnd_small: "\<bar>x\<bar> \<le> 1000000 \<Longrightarrow> rnd x = Fin (rgrid x)"
  using million_fits by (simp add: rnd_def)



lemma pow2_powi: "pow2 k = 2 powi k"
  by (simp add: pow2_def power_int_def field_simps)

lemma pow2_pos: "0 < pow2 k"
  by (simp add: pow2_powi)

lemma pow2_add: "pow2 (a + b) = pow2 a * pow2 b"
  by (simp add: pow2_powi power_int_add)

lemma pow2_0: "pow2 0 = 1"
  by (simp add: pow2_def)

lemma pow2_Suc: "pow2 (k + 1) = 2 * pow2 k"
proof -
  have "pow2 1 = 2" by (simp add: pow2_def)
  then show ?thesis using pow2_add [of k 1] by simp
qed

lemma pow2_pred: "pow2 (k - 1) = pow2 k / 2"
  using pow2_Suc [of "k - 1"] by simp

lemma pow2_mono: "a \<le> b \<Longrightarrow> pow2 a \<le> pow2 b"
  by (simp add: pow2_powi power_int_increasing)

lemma up_lower: "1 \<le> x \<Longrightarrow> pow2 (up n x) \<le> x \<and> 0 \<le> up n x"
proof (induction n arbitrary: x)
  case 0
  then show ?case by (simp add: pow2_0)
next
  case (Suc n)
  show ?case
  proof (cases "x < 2")
    case True
    then show ?thesis using Suc.prems by (simp add: pow2_0)
  next
    case False
    then have "1 \<le> x / 2" by simp
    then have "pow2 (up n (x / 2)) \<le> x / 2 \<and> 0 \<le> up n (x / 2)" by (rule Suc.IH)
    then show ?thesis using False pow2_Suc [of "up n (x / 2)"] by (simp add: add.commute)
  qed
qed

lemma down_lower:
  "0 \<le> x \<Longrightarrow> x < 1 \<Longrightarrow>
   (pow2 (down n x) \<le> x \<or> down n x = - int n) \<and> - int n \<le> down n x \<and> down n x \<le> 0"
proof (induction n arbitrary: x)
  case 0
  then show ?case by simp
next
  case (Suc n)
  show ?case
  proof (cases "1 \<le> 2 * x")
    case True
    have "down (Suc n) x = down n (2 * x) - 1" using Suc.prems by simp
    moreover have "down n (2 * x) = 0" using True by (cases n) simp_all
    ultimately have d: "down (Suc n) x = - 1" by simp
    have "pow2 (- 1) \<le> x" using True by (simp add: pow2_def)
    then show ?thesis using d by simp
  next
    case False
    then have h: "0 \<le> 2 * x" "2 * x < 1" using Suc.prems by simp_all
    note ih = Suc.IH [OF h]
    have d: "down (Suc n) x = down n (2 * x) - 1" using Suc.prems by simp
    have "pow2 (down n (2 * x)) \<le> 2 * x \<Longrightarrow> pow2 (down n (2 * x) - 1) \<le> x"
      by (simp add: pow2_pred)
    then show ?thesis using ih d by auto
  qed
qed

lemma expo_cases: "(pow2 (expo x) \<le> \<bar>x\<bar> \<or> expo x = - 1022) \<and> - 1022 \<le> expo x"
proof (cases "1 \<le> \<bar>x\<bar>")
  case True
  then show ?thesis using up_lower [OF True, of 1024] by (simp add: expo_def)
next
  case False
  then have "0 \<le> \<bar>x\<bar>" "\<bar>x\<bar> < 1" by simp_all
  from down_lower [OF this, of 1022] show ?thesis using False by (simp add: expo_def)
qed

lemma rne_err: "\<bar>real_of_int (rne q) - q\<bar> \<le> 1 / 2"
  unfolding rne_def Let_def by (auto; linarith)


lemma rgrid_err: "\<bar>rgrid x - x\<bar> \<le> pow2 (expo x - 53)"
proof -
  define u where "u = pow2 (expo x - 52)"
  have u: "0 < u" by (simp add: u_def pow2_pos)
  have "rgrid x - x = (real_of_int (rne (x / u)) - x / u) * u"
    using u by (simp add: rgrid_def Let_def u_def algebra_simps)
  then have "\<bar>rgrid x - x\<bar> = \<bar>real_of_int (rne (x / u)) - x / u\<bar> * u"
    using u by (simp add: abs_mult)
  also have "\<dots> \<le> (1 / 2) * u"
    using rne_err [of "x / u"] u by (intro mult_right_mono) simp_all
  also have "\<dots> = pow2 (expo x - 53)"
    using pow2_pred [of "expo x - 52"] by (simp add: u_def)
  finally show ?thesis .
qed



lemma rgrid_err_mixed: "\<bar>rgrid x - x\<bar> \<le> \<bar>x\<bar> * pow2 (- 53) + pow2 (- 1075)"
proof -
  from expo_cases [of x] consider (normal) "pow2 (expo x) \<le> \<bar>x\<bar>" | (sub) "expo x = - 1022"
    by blast
  then show ?thesis
  proof cases
    case normal
    have "pow2 (expo x - 53) = pow2 (expo x) * pow2 (- 53)"
      using pow2_add [of "expo x" "- 53"] by simp
    also have "\<dots> \<le> \<bar>x\<bar> * pow2 (- 53)"
      using normal pow2_pos [of "- 53"] by (intro mult_right_mono) simp_all
    finally show ?thesis using rgrid_err [of x] pow2_pos [of "- 1075"] by linarith
  next
    case sub
    then have "pow2 (expo x - 53) = pow2 (- 1075)" by simp
    moreover have "0 \<le> \<bar>x\<bar> * pow2 (- 53)" using pow2_pos [of "- 53"] by simp
    ultimately show ?thesis using rgrid_err [of x] by linarith
  qed
qed


lemma is_double_finite: "is_double x \<Longrightarrow> \<bar>x\<bar> < overflow_bound"
  unfolding is_double_def rnd_def by (auto split: if_splits)





lemma pow2_m53: "pow2 (- 53) = 1 / 9007199254740992"
  by (simp add: pow2_def)

lemma tiny_le: "pow2 (- 1075) \<le> pow2 (- 53)"
  by (rule pow2_mono) simp

lemma rgrid_near:
  assumes "\<bar>x\<bar> \<le> 1000"
  shows "\<bar>rgrid x - x\<bar> \<le> 1 / 1000000000"
proof -
  have "\<bar>x\<bar> * pow2 (- 53) \<le> 1000 * pow2 (- 53)"
    using assms pow2_pos [of "- 53"] by (intro mult_right_mono) simp_all
  then have "\<bar>rgrid x - x\<bar> \<le> 1001 * pow2 (- 53)"
    using rgrid_err_mixed [of x] tiny_le by linarith
  then show ?thesis by (simp add: pow2_m53)
qed

lemma rnd_near: "\<bar>x\<bar> \<le> 1000 \<Longrightarrow> rnd x = Fin (rgrid x)"
  by (rule rnd_small) simp




lemma normalize_number:
  "v \<noteq> NaN \<Longrightarrow>
   normalize (Num v) mn mx hib dflt =
     js_round (js_mul (if hib then js_div (js_sub (js_max mn (js_min mx v)) mn) (js_sub mx mn)
                       else js_sub (Fin 1)
                              (js_div (js_sub (js_max mn (js_min mx v)) mn) (js_sub mx mn)))
                      (Fin 100))"
  by (cases v) (simp_all add: Let_def)

subsection \<open>Evaluating a rounding\<close>

lemma rgrid_zero: "rgrid 0 = 0"
  by (simp add: rgrid_def rne_def Let_def)

lemma rgrid_eval:
  "x \<noteq> 0 \<Longrightarrow> rgrid x = real_of_int (rne (x / pow2 (expo x - 52))) * pow2 (expo x - 52)"
  by (simp add: rgrid_def Let_def)

lemmas fl_eval = rnd_small rgrid_zero rgrid_eval expo_def up_numeral down_numeral rne_def
  pow2_def Let_def js_sub_def

subsection \<open>The weight table\<close>

lemma lower_literals:
  "toLowerCase ''low'' = ''low''" "toLowerCase ''moderate'' = ''moderate''"
  "toLowerCase ''high'' = ''high''" "toLowerCase ''short'' = ''short''"
  "toLowerCase ''long'' = ''long''"
  by code_simp+

text \<open>The doubles that the adjustments and renormalizations arrive at, as fractions.\<close>

lemma unrounded_cases:
  "dynamicWeightsUnrounded rt d =
     (if toLowerCase rt = ''low'' then
        (if toLowerCase d = ''long''
         then (Fin (7677565079041131 / 18014398509481984),
               Fin (6090582353205813 / 18014398509481984),
               Fin (4246251077235039 / 18014398509481984))
         else (Fin (4289142502257615 / 9007199254740992),
               Fin (177999413843691 / 1125899906842624),
               Fin (6588122883467697 / 18014398509481984)))
      else if toLowerCase rt = ''high'' then
        (if toLowerCase d = ''long''
         then (Fin (1197009374643211 / 4503599627370496),
               Fin (1872549318748785 / 4503599627370496),
               Fin (5736163735913999 / 18014398509481984))
         else (Fin (5688757424046943 / 18014398509481984),
               Fin (4247605543288383 / 18014398509481984),
               Fin (8078035542146657 / 18014398509481984)))
      else
        (if toLowerCase d = ''long''
         then (Fin (6305039478318695 / 18014398509481984),
               Fin (2026619832316723 / 4503599627370496),
               Fin (3602879701896397 / 18014398509481984))
         else (Fin (3602879701896397 / 9007199254740992),
               Fin (4863887597560135 / 18014398509481984),
               Fin (5944751508129055 / 18014398509481984))))"
  by (simp add: dynamicWeightsUnrounded_def renormalize_def fl_eval)

lemma weights_cases:
  "getDynamicWeights rt d =
     (if toLowerCase rt = ''low'' then
        (if toLowerCase d = ''long'' then weights_of (rnd 0.426, rnd 0.338, rnd 0.236)
         else weights_of (rnd 0.476, rnd 0.158, rnd 0.366))
      else if toLowerCase rt = ''high'' then
        (if toLowerCase d = ''long'' then weights_of (rnd 0.266, rnd 0.416, rnd 0.318)
         else weights_of (rnd 0.316, rnd 0.236, rnd 0.448))
      else
        (if toLowerCase d = ''long'' then weights_of (rnd 0.35, rnd 0.45, rnd 0.2)
         else weights_of (rnd 0.4, rnd 0.27, rnd 0.33)))"
  by (simp add: getDynamicWeights_def unrounded_cases weights_of_def)

lemma weights_ok_table:
  "weights_ok (weights_of (rnd 0.426, rnd 0.338, rnd 0.236))"
  "weights_ok (weights_of (rnd 0.476, rnd 0.158, rnd 0.366))"
  "weights_ok (weights_of (rnd 0.266, rnd 0.416, rnd 0.318))"
  "weights_ok (weights_of (rnd 0.316, rnd 0.236, rnd 0.448))"
  "weights_ok (weights_of (rnd 0.35, rnd 0.45, rnd 0.2))"
  "weights_ok (weights_of (rnd 0.4, rnd 0.27, rnd 0.33))"
  by (simp_all add: weights_ok_def weights_of_def fl_eval)

subsection \<open>Scores of a dataset without metrics\<close>

lemma normalize_missing: "v \<in> {Null, Undefined} \<Longrightarrow> normalize v mn mx hib dflt = dflt"
  by auto

lemma popPressure_missing: "p \<in> {Null, Undefined} \<Longrightarrow> popPressure p = Fin 50"
  by (auto simp: popPressure_def)

lemma absent_travel: "all_absent d \<Longrightarrow> score (computeTravelRiskScore d) = Fin 58"
  by (simp add: all_absent_def computeTravelRiskScore_def opt_field_def clampRound_def fl_eval)

lemma absent_health: "all_absent d \<Longrightarrow> score (computeHealthInfrastructureScore d) = Fin 50"
  by (simp add: all_absent_def computeHealthInfrastructureScore_def popPressure_missing
      normalize_missing clampRound_def fl_eval)

lemma absent_env: "all_absent d \<Longrightarrow> score (computeEnvironmentalStabilityScore d) = Fin 50"
  by (simp add: all_absent_def computeEnvironmentalStabilityScore_def opt_field_def
      clampRound_def fl_eval)

lemma all_absent_example: "all_absent absent_country"
  by (simp add: all_absent_def absent_country_def)

lemma scoreCountry_fields:
  "travel_risk_score (snd (scoreCountry d rt dur)) = computeTravelRiskScore d"
  "health_infrastructure_score (snd (scoreCountry d rt dur)) = computeHealthInfrastructureScore d"
  "environmental_stability_score (snd (scoreCountry d rt dur)) = computeEnvironmentalStabilityScore d"
  "dynamic_weights (snd (scoreCountry d rt dur)) = getDynamicWeights rt dur"
  by (simp_all add: scoreCountry_def Let_def)

lemma composite_eq:
  "composite_score (snd (scoreCountry d rt dur)) =
     composite_of (score (computeTravelRiskScore d))
       (score (computeHealthInfrastructureScore d))
       (score (computeEnvironmentalStabilityScore d)) (getDynamicWeights rt dur)"
  by (simp add: scoreCountry_def Let_def composite_of_def)

lemma absent_composite_table:
  "composite_of (Fin 58) (Fin 50) (Fin 50) (weights_of (rnd 0.426, rnd 0.338, rnd 0.236)) = Fin 53"
  "composite_of (Fin 58) (Fin 50) (Fin 50) (weights_of (rnd 0.476, rnd 0.158, rnd 0.366)) = Fin 54"
  "composite_of (Fin 58) (Fin 50) (Fin 50) (weights_of (rnd 0.266, rnd 0.416, rnd 0.318)) = Fin 52"
  "composite_of (Fin 58) (Fin 50) (Fin 50) (weights_of (rnd 0.316, rnd 0.236, rnd 0.448)) = Fin 53"
  "composite_of (Fin 58) (Fin 50) (Fin 50) (weights_of (rnd 0.35, rnd 0.45, rnd 0.2)) = Fin 53"
  "composite_of (Fin 58) (Fin 50) (Fin 50) (weights_of (rnd 0.4, rnd 0.27, rnd 0.33)) = Fin 53"
  by (simp_all add: composite_of_def weights_of_def clampRound_def fl_eval)

lemma absent_composite:
  "all_absent d \<Longrightarrow> composite_score (snd (scoreCountry d rt dur)) =
     (if toLowerCase rt = ''low'' \<and> toLowerCase dur \<noteq> ''long'' then Fin 54
      else if toLowerCase rt = ''high'' \<and> toLowerCase dur = ''long'' then Fin 52 else Fin 53)"
  unfolding composite_eq weights_cases
  using absent_composite_table by (simp add: absent_travel absent_health absent_env)

lemma calm_scores:
  "score (computeTravelRiskScore calm_country) = Fin 50"
  "score (computeHealthInfrastructureScore calm_country) = Fin 50"
  "score (computeEnvironmentalStabilityScore calm_country) = Fin 83"
  by (simp_all add: calm_country_def computeTravelRiskScore_def
      computeHealthInfrastructureScore_def computeEnvironmentalStabilityScore_def
      popPressure_def opt_field_def clampRound_def fl_eval)

subsection \<open>Values at rounding ties\<close>

text \<open>
  Three places where the rounding of the doubles decides the integer. In exact
  arithmetic the first value would be 57.5 and round to 58, but the double is
  57.49999999999999. The second takes that 57 as its temperature component and comes
  to 78.45, where a component of 58 would give 78.65. The third would be 62.5 in exact
  arithmetic; the double is 62.49999999999999.
\<close>

lemma normalize_example:
  "normalize (Num (Fin 8.5)) (Fin 0) (Fin 20) False (Fin 50) = Fin 57"
  by (simp add: fl_eval)

lemma travel_example:
  "score (computeTravelRiskScore
     (absent_country\<lparr> weather := Some \<lparr> temp_celsius = Num (Fin 4.5), temp_min = Null,
                                        temp_max = Null, humidity_pct = Null,
                                        wind_speed_ms = Null, weather_id = Null \<rparr>,
                      aqi := Some \<lparr> aqi_value = Num (Fin 42) \<rparr>,
                      advisory := Some \<lparr> advisory_score = Num (Fin 2) \<rparr> \<rparr>)) = Fin 78"
  by (simp add: absent_country_def computeTravelRiskScore_def opt_field_def clampRound_def
      fl_eval)

lemma composite_example:
  "composite_of (Fin 76) (Fin 50) (Fin 67) (getDynamicWeights ''moderate'' ''long'') = Fin 62"
  by (simp add: weights_cases lower_literals composite_of_def weights_of_def clampRound_def
      fl_eval)

subsection \<open>The two orientations of normalize\<close>







subsection \<open>Weights and scores of a dataset without metrics\<close>

text \<open>
  Claim C7. The weight profile that \<open>getDynamicWeights\<close> returns is non-negative in
  each component and sums to 1 within 1/1000. This holds for every pair of strings, so
  in particular for the six pairs of low, moderate, high with short, long in any letter
  case: another risk tolerance is treated as moderate and another duration as short.
\<close>

theorem dynamic_weights_ok: "weights_ok (getDynamicWeights rt dur)"
  unfolding weights_cases using weights_ok_table by presburger

text \<open>
  Claim C1 as stated fails: with every raw metric absent the weather-event component is
  \<open>100 - weatherSeverityPenalty(undefined) = 100\<close>, not 50, so the Travel Risk score
  is \<open>round(10 + 15 + 17.5 + 15) = 58\<close> and the composite is not 50 either.
\<close>

theorem absent_scores_counterexample:
  "all_absent absent_country
   \<and> score (travel_risk_score (snd (scoreCountry absent_country ''moderate'' ''short''))) = Fin 58
   \<and> composite_score (snd (scoreCountry absent_country ''moderate'' ''short'')) = Fin 53"
  using all_absent_example absent_travel [OF all_absent_example] absent_composite [OF all_absent_example, of "''moderate''" "''short''"]
  by (simp add: scoreCountry_fields lower_literals)

text \<open>
  Claim C1, amended. For every dataset in which every raw metric is absent and every
  pair of risk tolerance and duration, \<open>scoreCountry\<close> yields Travel Risk 58, Health
  Infrastructure 50 and Environmental Stability 50; the composite is 54 for low with
  short, 52 for high with long, and 53 for every other pair.
\<close>

theorem absent_scores:
  assumes "all_absent d"
  shows "score (travel_risk_score (snd (scoreCountry d rt dur))) = Fin 58
       \<and> score (health_infrastructure_score (snd (scoreCountry d rt dur))) = Fin 50
       \<and> score (environmental_stability_score (snd (scoreCountry d rt dur))) = Fin 50
       \<and> composite_score (snd (scoreCountry d rt dur)) =
           (if toLowerCase rt = ''low'' \<and> toLowerCase dur \<noteq> ''long'' then Fin 54
            else if toLowerCase rt = ''high'' \<and> toLowerCase dur = ''long'' then Fin 52
            else Fin 53)"
  using assms by (simp add: scoreCountry_fields absent_travel absent_health absent_env absent_composite)

theorem absent_scores_witness:
  "all_absent absent_country
   \<and> score (travel_risk_score (snd (scoreCountry absent_country ''high'' ''long''))) = Fin 58
   \<and> score (health_infrastructure_score (snd (scoreCountry absent_country ''high'' ''long''))) = Fin 50
   \<and> score (environmental_stability_score (snd (scoreCountry absent_country ''high'' ''long''))) = Fin 50
   \<and> composite_score (snd (scoreCountry absent_country ''high'' ''long'')) = Fin 52"
  using absent_scores [OF all_absent_example, of "''high''" "''long''"] all_absent_example
  by (simp add: lower_literals)

subsection \<open>Every score is an integer between 0 and 100\<close>

lemma rnd_close: "\<bar>x\<bar> \<le> 1000 \<Longrightarrow> \<exists>y. rnd x = Fin y \<and> \<bar>y - x\<bar> \<le> 1 / 1000000000"
  using rnd_near [of x] rgrid_near [of x] by simp

lemma is_score_int: "0 \<le> i \<Longrightarrow> i \<le> 100 \<Longrightarrow> is_score (Fin (real_of_int i))"
  unfolding is_score_def by blast

lemma is_score_round: "- 1 / 4 \<le> x \<Longrightarrow> x \<le> 100 + 1 / 4 \<Longrightarrow> is_score (js_round (Fin x))"
proof -
  assume "- 1 / 4 \<le> x" "x \<le> 100 + 1 / 4"
  then have "0 \<le> \<lfloor>x + 1 / 2\<rfloor>" "\<lfloor>x + 1 / 2\<rfloor> \<le> 100" by linarith+
  then show ?thesis by (simp add: is_score_int)
qed

lemma is_score_50: "is_score (Fin 50)"
  using is_score_int [of 50] by simp

lemma score_within: "is_score s \<Longrightarrow> bounded_by 100 s"
  unfolding is_score_def bounded_by_def by auto

lemma ratio_abs:
  fixes A B n d e :: real
  assumes A: "0 \<le> A" "A \<le> B" and B: "1 \<le> B"
    and n: "\<bar>n - A\<bar> \<le> e" and d: "\<bar>d - B\<bar> \<le> e"
    and e: "0 \<le> e" "e \<le> 1 / 4"
  shows "0 < d" and "\<bar>n / d - A / B\<bar> \<le> 4 * e"
proof -
  have dl: "3 / 4 \<le> d" using d e B by linarith
  then show dpos: "0 < d" by linarith
  have Bpos: "0 < B" using B by linarith
  have t1: "\<bar>(n - A) * B\<bar> \<le> e * B"
    using n Bpos by (simp add: abs_mult mult_right_mono)
  have t2: "\<bar>A * (d - B)\<bar> \<le> A * e"
    using d A by (simp add: abs_mult mult_left_mono)
  have t3: "A * e \<le> B * e" using A e by (intro mult_right_mono) simp_all
  have "n * B - A * d = (n - A) * B - A * (d - B)" by (simp add: algebra_simps)
  then have num: "\<bar>n * B - A * d\<bar> \<le> 2 * (e * B)"
    using t1 t2 t3 by (simp add: mult.commute)
  have "1 / 2 * B \<le> d * B" using dl Bpos by (intro mult_right_mono) simp_all
  then have "e * (1 / 2 * B) \<le> e * (d * B)" using e by (intro mult_left_mono) simp_all
  then have le: "\<bar>n * B - A * d\<bar> \<le> 4 * e * (d * B)" using num by (simp add: algebra_simps)
  have db: "0 < d * B" using dpos Bpos by simp
  have "n / d - A / B = (n * B - A * d) / (d * B)"
    using dpos Bpos by (simp add: field_simps)
  then have "\<bar>n / d - A / B\<bar> = \<bar>n * B - A * d\<bar> / (d * B)"
    using db by (simp add: abs_divide)
  also have "\<dots> \<le> 4 * e"
    using le db by (simp add: pos_divide_le_eq)
  finally show "\<bar>n / d - A / B\<bar> \<le> 4 * e" .
qed

lemma clamped_real:
  assumes "v \<noteq> NaN" "mn \<le> mx"
  shows "\<exists>c. js_max (Fin mn) (js_min (Fin mx) v) = Fin c \<and> mn \<le> c \<and> c \<le> mx"
proof (cases v)
  case (Fin x)
  then show ?thesis using assms by auto
qed (use assms in simp_all)

lemma normalize_score:
  assumes b: "mn + 1 \<le> mx" "- 500 \<le> mn" "mx \<le> 500" and dflt: "is_score dflt"
  shows "is_score (normalize v (Fin mn) (Fin mx) hib dflt)"
proof (cases "\<exists>n. v = Num n \<and> n \<noteq> NaN")
  case False
  then have "normalize v (Fin mn) (Fin mx) hib dflt = dflt"
  proof (cases v)
    case (Num n)
    then have "n = NaN" using False by simp
    then show ?thesis using Num by simp
  qed simp_all
  then show ?thesis using dflt by simp
next
  case True
  then obtain w where v: "v = Num w" and vn: "w \<noteq> NaN" by blast
  obtain c where c: "js_max (Fin mn) (js_min (Fin mx) w) = Fin c" "mn \<le> c" "c \<le> mx"
    using clamped_real [OF vn, of mn mx] b by auto
  define A where "A = c - mn"
  define B where "B = mx - mn"
  define e :: real where "e = 1 / 1000000000"
  have e: "0 \<le> e" "e \<le> 1 / 4" by (simp_all add: e_def)
  have AB: "0 \<le> A" "A \<le> B" "1 \<le> B" "B \<le> 1000" using c b by (simp_all add: A_def B_def)
  have sA: "\<bar>c + - mn\<bar> \<le> 1000" and sB: "\<bar>mx + - mn\<bar> \<le> 1000"
    using AB by (simp_all add: A_def B_def)
  obtain n where n: "js_sub (Fin c) (Fin mn) = Fin n" "\<bar>n - A\<bar> \<le> e"
    using rnd_close [OF sA] by (auto simp: js_sub_def A_def e_def)
  obtain d where d: "js_sub (Fin mx) (Fin mn) = Fin d" "\<bar>d - B\<bar> \<le> e"
    using rnd_close [OF sB] by (auto simp: js_sub_def B_def e_def)
  note rn = ratio_abs [OF AB(1-3) n(2) d(2) e]
  define rho where "rho = A / B"
  have rho: "0 \<le> rho" "rho \<le> 1" using AB by (simp_all add: rho_def)
  have q: "\<bar>n / d - rho\<bar> \<le> 4 * e" using rn(2) by (simp add: rho_def)
  have qs: "\<bar>n / d\<bar> \<le> 1000" using q rho e by linarith
  obtain r where r0: "rnd (n / d) = Fin r" "\<bar>r - n / d\<bar> \<le> e"
    using rnd_close [OF qs] by (auto simp: e_def)
  have ratio: "js_div (Fin n) (Fin d) = Fin r" using rn(1) r0(1) by simp
  have r: "\<bar>r - rho\<bar> \<le> 5 * e" using r0(2) q by linarith
  have r100: "\<bar>r * 100\<bar> \<le> 1000" using r rho e by linarith
  obtain a where a0: "js_mul (Fin r) (Fin 100) = Fin a" "\<bar>a - r * 100\<bar> \<le> e"
    using rnd_close [OF r100] by (auto simp: e_def)
  have a: "- 1 / 4 \<le> a" "a \<le> 100 + 1 / 4" using a0(2) r rho unfolding e_def by linarith+
  have r1: "\<bar>1 + - r\<bar> \<le> 1000" using r rho e by linarith
  obtain s where s0: "js_sub (Fin 1) (Fin r) = Fin s" "\<bar>s - (1 + - r)\<bar> \<le> e"
    using rnd_close [OF r1] by (auto simp: js_sub_def e_def)
  have s100: "\<bar>s * 100\<bar> \<le> 1000" using s0(2) r rho e by linarith
  obtain b' where b0: "js_mul (Fin s) (Fin 100) = Fin b'" "\<bar>b' - s * 100\<bar> \<le> e"
    using rnd_close [OF s100] by (auto simp: e_def)
  have b': "- 1 / 4 \<le> b'" "b' \<le> 100 + 1 / 4"
    using b0(2) s0(2) r rho unfolding e_def by linarith+
  have eq: "normalize v (Fin mn) (Fin mx) hib dflt = js_round (Fin (if hib then a else b'))"
    by (simp only: v normalize_number [OF vn] c n d ratio a0 s0 b0 if_distrib [of Fin] if_distrib [of "\<lambda>x. js_mul x (Fin 100)"] if_distrib [of js_round])
  show ?thesis
    unfolding eq using is_score_round [OF a] is_score_round [OF b']
    by (cases hib) (simp_all only: if_True if_False)
qed

lemma abs_prod_le:
  fixes s w :: real
  shows "\<bar>s\<bar> \<le> S \<Longrightarrow> \<bar>w\<bar> \<le> W \<Longrightarrow> \<bar>s * w\<bar> \<le> S * W"
  unfolding abs_mult by (rule mult_mono) simp_all

lemma rnd_bounded:
  assumes "\<bar>x\<bar> \<le> k" "k \<le> 999"
  shows "bounded_by (k + 1) (rnd x)"
proof -
  have "\<bar>x\<bar> \<le> 1000" using assms by linarith
  from rnd_close [OF this] obtain y where y: "rnd x = Fin y" "\<bar>y - x\<bar> \<le> 1 / 1000000000"
    by blast
  have "\<bar>y\<bar> \<le> k + 1" using y(2) assms(1) by linarith
  then show ?thesis unfolding bounded_by_def using y(1) by blast
qed

lemma lit_bounded: "\<bar>x\<bar> \<le> 1 \<Longrightarrow> bounded_by 2 (rnd x)"
  using rnd_bounded [of x 1] by simp

lemma term_bounded:
  assumes "is_score s" "\<bar>w\<bar> \<le> 1"
  shows "bounded_by 201 (js_mul s (rnd w))"
proof -
  obtain x where x: "s = Fin x" "\<bar>x\<bar> \<le> 100"
    using score_within [OF assms(1)] unfolding bounded_by_def by blast
  obtain y where y: "rnd w = Fin y" "\<bar>y\<bar> \<le> 2"
    using lit_bounded [OF assms(2)] unfolding bounded_by_def by blast
  have "\<bar>x * y\<bar> \<le> 100 * 2" using x(2) y(2) by (rule abs_prod_le)
  then have "\<bar>x * y\<bar> \<le> 200" by simp
  then have "bounded_by (200 + 1) (rnd (x * y))" by (rule rnd_bounded) simp
  then show ?thesis unfolding x y by simp
qed

lemma add_bounded:
  assumes "bounded_by a p" "bounded_by b q" "a + b \<le> 999"
  shows "bounded_by (a + b + 1) (js_add p q)"
proof -
  obtain x where x: "p = Fin x" "\<bar>x\<bar> \<le> a" using assms(1) unfolding bounded_by_def by blast
  obtain y where y: "q = Fin y" "\<bar>y\<bar> \<le> b" using assms(2) unfolding bounded_by_def by blast
  have "\<bar>x + y\<bar> \<le> a + b" using x(2) y(2) by linarith
  then have "bounded_by (a + b + 1) (rnd (x + y))" using assms(3) by (rule rnd_bounded)
  then show ?thesis unfolding x y by simp
qed

lemma clampRound_fin:
  "clampRound (Fin x) = Fin (real_of_int \<lfloor>max 0 (min 100 x) + 1 / 2\<rfloor>)"
  by (simp add: clampRound_def max_def min_def)

lemma clampRound_score: "bounded_by k r \<Longrightarrow> is_score (clampRound r)"
proof -
  assume "bounded_by k r"
  then obtain x where x: "r = Fin x" unfolding bounded_by_def by blast
  have "0 \<le> \<lfloor>max 0 (min 100 x) + 1 / 2\<rfloor>" "\<lfloor>max 0 (min 100 x) + 1 / 2\<rfloor> \<le> 100" by linarith+
  then show ?thesis unfolding x clampRound_fin by (rule is_score_int)
qed

lemma blend4_score:
  assumes "is_score a" "is_score b" "is_score c" "is_score d"
    and "\<bar>w1\<bar> \<le> 1" "\<bar>w2\<bar> \<le> 1" "\<bar>w3\<bar> \<le> 1" "\<bar>w4\<bar> \<le> 1"
  shows "is_score (clampRound (js_add (js_add (js_add (js_mul a (rnd w1)) (js_mul b (rnd w2)))
                                              (js_mul c (rnd w3)))
                                      (js_mul d (rnd w4))))"
proof -
  note t = term_bounded [OF assms(1) assms(5)] term_bounded [OF assms(2) assms(6)]
    term_bounded [OF assms(3) assms(7)] term_bounded [OF assms(4) assms(8)]
  have s1: "bounded_by 403 (js_add (js_mul a (rnd w1)) (js_mul b (rnd w2)))"
    using add_bounded [OF t(1) t(2)] by simp
  have s2: "bounded_by 605 (js_add (js_add (js_mul a (rnd w1)) (js_mul b (rnd w2)))
                                    (js_mul c (rnd w3)))"
    using add_bounded [OF s1 t(3)] by simp
  have "bounded_by 807 (js_add (js_add (js_add (js_mul a (rnd w1)) (js_mul b (rnd w2)))
                                        (js_mul c (rnd w3)))
                                (js_mul d (rnd w4)))"
    using add_bounded [OF s2 t(4)] by simp
  then show ?thesis by (rule clampRound_score)
qed

lemma blend3_score:
  assumes "is_score a" "is_score b" "is_score c"
    and "\<bar>w1\<bar> \<le> 1" "\<bar>w2\<bar> \<le> 1" "\<bar>w3\<bar> \<le> 1"
  shows "is_score (clampRound (js_add (js_add (js_mul a (rnd w1)) (js_mul b (rnd w2)))
                                      (js_mul c (rnd w3))))"
proof -
  note t = term_bounded [OF assms(1) assms(4)] term_bounded [OF assms(2) assms(5)]
    term_bounded [OF assms(3) assms(6)]
  have s1: "bounded_by 403 (js_add (js_mul a (rnd w1)) (js_mul b (rnd w2)))"
    using add_bounded [OF t(1) t(2)] by simp
  have "bounded_by 605 (js_add (js_add (js_mul a (rnd w1)) (js_mul b (rnd w2)))
                                (js_mul c (rnd w3)))"
    using add_bounded [OF s1 t(3)] by simp
  then show ?thesis by (rule clampRound_score)
qed

lemma normalize_const_score:
  "mn + 1 \<le> mx \<Longrightarrow> - 500 \<le> mn \<Longrightarrow> mx \<le> 500 \<Longrightarrow>
   is_score (normalize v (Fin mn) (Fin mx) hib (Fin 50))"
  by (rule normalize_score) (simp_all add: is_score_50)

lemma tempComfort_score: "is_score (tempComfortScore t)"
proof (cases "t = Null")
  case True
  then show ?thesis by (simp add: is_score_50)
next
  case False
  have "is_score (normalize (Num (js_abs (js_sub (toNumber t) (Fin 21.5)))) (Fin 0) (Fin 40)
                    False (Fin 50))"
    by (rule normalize_const_score) simp_all
  then show ?thesis using False by (cases t) simp_all
qed

lemma weatherEvt_score: "is_score (js_sub (Fin 100) (weatherSeverityPenalty w))"
proof -
  have v: "is_score (Fin 100)" "is_score (Fin 30)" "is_score (Fin 80)" "is_score (Fin 60)"
    "is_score (Fin 40)" "is_score (Fin 50)" "is_score (Fin 90)"
    using is_score_int [of 100] is_score_int [of 30] is_score_int [of 80] is_score_int [of 60]
      is_score_int [of 40] is_score_int [of 50] is_score_int [of 90]
    by simp_all
  have r: "js_sub (Fin 100) (Fin 0) = Fin 100" "js_sub (Fin 100) (Fin 70) = Fin 30"
    "js_sub (Fin 100) (Fin 20) = Fin 80" "js_sub (Fin 100) (Fin 40) = Fin 60"
    "js_sub (Fin 100) (Fin 60) = Fin 40" "js_sub (Fin 100) (Fin 50) = Fin 50"
    "js_sub (Fin 100) (Fin 10) = Fin 90"
    by (simp_all add: fl_eval)
  show ?thesis
  proof (cases "\<exists>x. w = Num (Fin x)")
    case True
    then obtain x where "w = Num (Fin x)" by blast
    then show ?thesis using v by (simp only: weatherSeverityPenalty.simps r split: if_split) simp
  next
    case False
    then have "weatherSeverityPenalty w = Fin 0"
      by (cases w rule: weatherSeverityPenalty.cases) simp_all
    then show ?thesis using v(1) by (simp only: r)
  qed
qed

lemma travel_is_score: "is_score (score (computeTravelRiskScore d))"
  unfolding computeTravelRiskScore_def Let_def scoreBreakdown.simps
proof (rule blend4_score)
  show "is_score (if opt_field temp_celsius (weather d) \<noteq> Undefined
                  then tempComfortScore (opt_field temp_celsius (weather d)) else Fin 50)"
    by (simp add: tempComfort_score is_score_50)
  show "is_score (normalize (opt_field aqi_value (aqi d)) (Fin 0) (Fin 300) False (Fin 50))"
    by (rule normalize_const_score) simp_all
  show "is_score (normalize (opt_field advisory_score (advisory d)) (Fin 1) (Fin 5) False (Fin 50))"
    by (rule normalize_const_score) simp_all
  show "is_score (js_sub (Fin 100) (weatherSeverityPenalty (opt_field weather_id (weather d))))"
    by (rule weatherEvt_score)
qed simp_all

lemma log10_bounds:
  "log 10 100000 = 5" "9 \<le> log 10 2000000000" "log 10 2000000000 \<le> 10"
proof -
  have "log 10 ((10::real) ^ 5) = real 5" by (rule log_pow_cancel) simp_all
  then show "log 10 100000 = 5" by simp
  show "9 \<le> log 10 2000000000" by (subst le_log_iff) simp_all
  show "log 10 2000000000 \<le> 10" by (subst log_le_iff) simp_all
qed

lemma popPressure_score: "is_score (popPressure p)"
proof -
  have mn: "js_log10 (Fin 100000) = Fin 5" by (simp add: log10_bounds fl_eval)
  have "\<bar>log 10 2000000000\<bar> \<le> 1000" using log10_bounds by linarith
  from rnd_close [OF this] obtain m
    where m: "rnd (log 10 2000000000) = Fin m" "\<bar>m - log 10 2000000000\<bar> \<le> 1 / 1000000000"
    by blast
  have mx: "js_log10 (Fin 2000000000) = Fin m" using m(1) by simp
  have b: "5 + 1 \<le> m" "m \<le> 500" using m(2) log10_bounds by linarith+
  have n: "is_score (normalize v (js_log10 (Fin 100000)) (js_log10 (Fin 2000000000))
                       False (Fin 50))" for v
    unfolding mn mx using b by (intro normalize_const_score) simp_all
  show ?thesis
  proof (cases p)
    case (Num x)
    show ?thesis
    proof (cases "x = NaN \<or> x = Fin 0")
      case True
      then show ?thesis using Num is_score_50 by (auto simp: popPressure_def)
    next
      case False
      then have "popPressure p = normalize (Num (js_log10 x)) (js_log10 (Fin 100000))
                                   (js_log10 (Fin 2000000000)) False (Fin 50)"
        using Num by (cases x) (simp_all add: popPressure_def del: normalize.simps js_log10.simps)
      then show ?thesis using n by (simp only:)
    qed
  qed (simp_all add: popPressure_def is_score_50)
qed

lemma health_is_score: "is_score (score (computeHealthInfrastructureScore d))"
  unfolding computeHealthInfrastructureScore_def Let_def scoreBreakdown.simps
proof (rule blend3_score)
  show "is_score (normalize (healthcareExpenditure (worldBank d)) (Fin 1) (Fin 15) True (Fin 50))"
    by (rule normalize_const_score) simp_all
  show "is_score (normalize (lifeExpectancy (worldBank d)) (Fin 45) (Fin 90) True (Fin 50))"
    by (rule normalize_const_score) simp_all
  show "is_score (popPressure (population (profile d)))"
    by (rule popPressure_score)
qed simp_all

lemma env_is_score: "is_score (score (computeEnvironmentalStabilityScore d))"
  unfolding computeEnvironmentalStabilityScore_def Let_def scoreBreakdown.simps
proof (rule blend4_score)
  have n: "is_score (normalize v (Fin 0) (Fin 20) False (Fin 50))"
    "is_score (normalize v (Fin 0) (Fin 55) False (Fin 50))"
    "is_score (normalize v (Fin 0) (Fin 300) False (Fin 50))" for v
    by (rule normalize_const_score; simp)+
  show "is_score (normalize (opt_field aqi_value (aqi d)) (Fin 0) (Fin 300) False (Fin 50))"
    by (rule n)
  show "is_score
          (if opt_field temp_max (weather d) \<noteq> Undefined
              \<and> opt_field temp_min (weather d) \<noteq> Undefined
           then normalize (Num (js_sub (toNumber (opt_field temp_max (weather d)))
                                       (toNumber (opt_field temp_min (weather d)))))
                          (Fin 0) (Fin 20) False (Fin 50)
           else Fin 50)"
    using n(1) is_score_50 by (simp only: split: if_split) blast
  show "is_score (normalize (opt_field wind_speed_ms (weather d)) (Fin 0) (Fin 20) False (Fin 50))"
    by (rule n)
  show "is_score
          (if opt_field humidity_pct (weather d) \<noteq> Undefined
           then normalize (Num (js_abs (js_sub (toNumber (opt_field humidity_pct (weather d)))
                                               (Fin 45))))
                          (Fin 0) (Fin 55) False (Fin 50)
           else Fin 50)"
    using n(2) is_score_50 by (simp only: split: if_split) blast
qed simp_all

subsection \<open>The effect of rounding the weights\<close>

lemma round_thousandth: "\<bar>real_of_int \<lfloor>y * 1000 + 1 / 2\<rfloor> / 1000 - y\<bar> \<le> 1 / 2000"
proof -
  define n where "n = real_of_int \<lfloor>y * 1000 + 1 / 2\<rfloor>"
  have "n \<le> y * 1000 + 1 / 2" and "y * 1000 + 1 / 2 < n + 1"
    unfolding n_def by linarith+
  then have "\<bar>n / 1000 - y\<bar> \<le> 1 / 2000" by linarith
  then show ?thesis by (simp add: n_def)
qed

lemma toFixed3_close:
  assumes "0 \<le> a" "a \<le> 1"
  shows "\<exists>a'. toFixed3 (Fin a) = Fin a' \<and> \<bar>a' - a\<bar> \<le> 1 / 1000 \<and> \<bar>a'\<bar> \<le> 2"
proof -
  define y where "y = real_of_int \<lfloor>a * 1000 + 1 / 2\<rfloor> / 1000"
  have y: "\<bar>y - a\<bar> \<le> 1 / 2000" unfolding y_def by (rule round_thousandth)
  then have "\<bar>y\<bar> \<le> 1000" using assms by linarith
  from rnd_close [OF this] obtain a' where a': "rnd y = Fin a'" "\<bar>a' - y\<bar> \<le> 1 / 1000000000"
    by blast
  have "\<not> 10 ^ 21 \<le> \<bar>a\<bar>" using assms by simp
  then have "toFixed3 (Fin a) = Fin a'" using assms(1) a'(1) by (simp add: y_def)
  moreover have "\<bar>a' - a\<bar> \<le> 1 / 1000" "\<bar>a'\<bar> \<le> 2" using a'(2) y assms by linarith+
  ultimately show ?thesis by blast
qed

lemma unrounded_bounds:
  "\<exists>a b c. dynamicWeightsUnrounded rt dur = (Fin a, Fin b, Fin c)
           \<and> 0 \<le> a \<and> a \<le> 1 \<and> 0 \<le> b \<and> b \<le> 1 \<and> 0 \<le> c \<and> c \<le> 1"
proof -
  have t: "\<exists>a' b' c'. (Fin a, Fin b, Fin c) = (Fin a', Fin b', Fin c')
                     \<and> 0 \<le> a' \<and> a' \<le> 1 \<and> 0 \<le> b' \<and> b' \<le> 1 \<and> 0 \<le> c' \<and> c' \<le> 1"
    if "0 \<le> a" "a \<le> 1" "0 \<le> b" "b \<le> 1" "0 \<le> c" "c \<le> 1" for a b c :: real
    using that by blast
  show ?thesis
    unfolding unrounded_cases
    by (simp only: split: if_split, intro conjI impI; (rule t; simp))
qed

lemma blend3_real:
  fixes t h e a b c :: real
  assumes "\<bar>t\<bar> \<le> 100" "\<bar>h\<bar> \<le> 100" "\<bar>e\<bar> \<le> 100" "\<bar>a\<bar> \<le> 2" "\<bar>b\<bar> \<le> 2" "\<bar>c\<bar> \<le> 2"
  shows "\<exists>x. js_add (js_add (js_mul (Fin t) (Fin a)) (js_mul (Fin h) (Fin b)))
                     (js_mul (Fin e) (Fin c)) = Fin x
            \<and> \<bar>x - (t * a + h * b + e * c)\<bar> \<le> 1 / 100000000"
proof -
  have p: "\<bar>t * a\<bar> \<le> 100 * 2" "\<bar>h * b\<bar> \<le> 100 * 2" "\<bar>e * c\<bar> \<le> 100 * 2"
    using abs_prod_le [OF assms(1) assms(4)] abs_prod_le [OF assms(2) assms(5)]
      abs_prod_le [OF assms(3) assms(6)]
    by simp_all
  then have "\<bar>t * a\<bar> \<le> 1000" "\<bar>h * b\<bar> \<le> 1000" "\<bar>e * c\<bar> \<le> 1000" by simp_all
  from this [THEN rnd_close] obtain p1 p2 p3
    where p1: "rnd (t * a) = Fin p1" "\<bar>p1 - t * a\<bar> \<le> 1 / 1000000000"
      and p2: "rnd (h * b) = Fin p2" "\<bar>p2 - h * b\<bar> \<le> 1 / 1000000000"
      and p3: "rnd (e * c) = Fin p3" "\<bar>p3 - e * c\<bar> \<le> 1 / 1000000000"
    by blast
  have "\<bar>p1 + p2\<bar> \<le> 1000" using p p1(2) p2(2) by linarith
  from rnd_close [OF this] obtain s
    where s: "rnd (p1 + p2) = Fin s" "\<bar>s - (p1 + p2)\<bar> \<le> 1 / 1000000000"
    by blast
  have "\<bar>s + p3\<bar> \<le> 1000" using p p1(2) p2(2) p3(2) s(2) by linarith
  from rnd_close [OF this] obtain x
    where x: "rnd (s + p3) = Fin x" "\<bar>x - (s + p3)\<bar> \<le> 1 / 1000000000"
    by blast
  have "js_add (js_add (js_mul (Fin t) (Fin a)) (js_mul (Fin h) (Fin b)))
               (js_mul (Fin e) (Fin c)) = Fin x"
    by (simp add: p1 p2 p3 s x)
  moreover have "\<bar>x - (t * a + h * b + e * c)\<bar> \<le> 1 / 100000000"
    using p1(2) p2(2) p3(2) s(2) x(2) by linarith
  ultimately show ?thesis by blast
qed

lemma term_shift:
  fixes t a a' :: real
  assumes "\<bar>t\<bar> \<le> 100" "\<bar>a' - a\<bar> \<le> 1 / 1000"
  shows "\<bar>t * a' - t * a\<bar> \<le> 1 / 10"
proof -
  have "\<bar>t * (a' - a)\<bar> \<le> 100 * (1 / 1000)" using assms by (rule abs_prod_le)
  then show ?thesis by (simp add: right_diff_distrib)
qed

lemma round_close:
  fixes x y :: real
  assumes "\<bar>x - y\<bar> < 1"
  shows "\<bar>\<lfloor>max 0 (min 100 x) + 1 / 2\<rfloor> - \<lfloor>max 0 (min 100 y) + 1 / 2\<rfloor>\<bar> \<le> 1"
  using assms by linarith

lemma composite_gap:
  assumes s: "is_score t" "is_score h" "is_score e"
    and w: "0 \<le> a" "a \<le> 1" "0 \<le> b" "b \<le> 1" "0 \<le> c" "c \<le> 1"
  shows "\<exists>i j. composite_of t h e (weights_of (toFixed3 (Fin a), toFixed3 (Fin b), toFixed3 (Fin c)))
                 = Fin (real_of_int i)
              \<and> composite_of t h e (weights_of (Fin a, Fin b, Fin c)) = Fin (real_of_int j)
              \<and> \<bar>i - j\<bar> \<le> 1"
proof -
  obtain ti hi ei :: int where v: "t = Fin (real_of_int ti)" "h = Fin (real_of_int hi)"
      "e = Fin (real_of_int ei)"
    and r: "0 \<le> ti" "ti \<le> 100" "0 \<le> hi" "hi \<le> 100" "0 \<le> ei" "ei \<le> 100"
    using s unfolding is_score_def by blast
  have sb: "\<bar>real_of_int ti\<bar> \<le> 100" "\<bar>real_of_int hi\<bar> \<le> 100" "\<bar>real_of_int ei\<bar> \<le> 100"
    using r by simp_all
  obtain a' b' c' where f: "toFixed3 (Fin a) = Fin a'" "toFixed3 (Fin b) = Fin b'"
      "toFixed3 (Fin c) = Fin c'"
    and fd: "\<bar>a' - a\<bar> \<le> 1 / 1000" "\<bar>b' - b\<bar> \<le> 1 / 1000" "\<bar>c' - c\<bar> \<le> 1 / 1000"
    and fb: "\<bar>a'\<bar> \<le> 2" "\<bar>b'\<bar> \<le> 2" "\<bar>c'\<bar> \<le> 2"
    using toFixed3_close [OF w(1,2)] toFixed3_close [OF w(3,4)] toFixed3_close [OF w(5,6)]
    by blast
  have wb: "\<bar>a\<bar> \<le> 2" "\<bar>b\<bar> \<le> 2" "\<bar>c\<bar> \<le> 2" using w by simp_all
  obtain x where x: "js_add (js_add (js_mul (Fin (real_of_int ti)) (Fin a'))
                                    (js_mul (Fin (real_of_int hi)) (Fin b')))
                            (js_mul (Fin (real_of_int ei)) (Fin c')) = Fin x"
      "\<bar>x - (real_of_int ti * a' + real_of_int hi * b' + real_of_int ei * c')\<bar> \<le> 1 / 100000000"
    using blend3_real [OF sb fb] by blast
  obtain y where y: "js_add (js_add (js_mul (Fin (real_of_int ti)) (Fin a))
                                    (js_mul (Fin (real_of_int hi)) (Fin b)))
                            (js_mul (Fin (real_of_int ei)) (Fin c)) = Fin y"
      "\<bar>y - (real_of_int ti * a + real_of_int hi * b + real_of_int ei * c)\<bar> \<le> 1 / 100000000"
    using blend3_real [OF sb wb] by blast
  have "\<bar>x - y\<bar> < 1"
    using x(2) y(2) term_shift [OF sb(1) fd(1)] term_shift [OF sb(2) fd(2)]
      term_shift [OF sb(3) fd(3)]
    by linarith
  note g = round_close [OF this]
  have "composite_of t h e (weights_of (toFixed3 (Fin a), toFixed3 (Fin b), toFixed3 (Fin c)))
          = Fin (real_of_int \<lfloor>max 0 (min 100 x) + 1 / 2\<rfloor>)"
    by (simp only: composite_of_def weights_of_def prod.case weightProfile.simps v f x
        clampRound_fin)
  moreover have "composite_of t h e (weights_of (Fin a, Fin b, Fin c))
          = Fin (real_of_int \<lfloor>max 0 (min 100 y) + 1 / 2\<rfloor>)"
    by (simp only: composite_of_def weights_of_def prod.case weightProfile.simps v y
        clampRound_fin)
  ultimately show ?thesis using g by blast
qed

lemma composite_rounding_gap:
  "\<exists>i j. composite_score (snd (scoreCountry d rt dur)) = Fin (real_of_int i)
         \<and> composite_unrounded_spec d rt dur = Fin (real_of_int j) \<and> \<bar>i - j\<bar> \<le> 1"
proof -
  obtain a b c where u: "dynamicWeightsUnrounded rt dur = (Fin a, Fin b, Fin c)"
    and w: "0 \<le> a" "a \<le> 1" "0 \<le> b" "b \<le> 1" "0 \<le> c" "c \<le> 1"
    using unrounded_bounds [of rt dur] by blast
  have g: "getDynamicWeights rt dur
             = weights_of (toFixed3 (Fin a), toFixed3 (Fin b), toFixed3 (Fin c))"
    by (simp add: getDynamicWeights_def u weights_of_def)
  show ?thesis
    unfolding composite_eq composite_unrounded_spec_def g u
    using travel_is_score health_is_score env_is_score w by (rule composite_gap)
qed

lemma composite_is_score: "is_score (composite_score (snd (scoreCountry d rt dur)))"
proof -
  obtain a b c where u: "dynamicWeightsUnrounded rt dur = (Fin a, Fin b, Fin c)"
    and w: "0 \<le> a" "a \<le> 1" "0 \<le> b" "b \<le> 1" "0 \<le> c" "c \<le> 1"
    using unrounded_bounds [of rt dur] by blast
  obtain a' b' c' where f: "toFixed3 (Fin a) = Fin a'" "toFixed3 (Fin b) = Fin b'"
      "toFixed3 (Fin c) = Fin c'"
    and fb: "\<bar>a'\<bar> \<le> 2" "\<bar>b'\<bar> \<le> 2" "\<bar>c'\<bar> \<le> 2"
    using toFixed3_close [OF w(1,2)] toFixed3_close [OF w(3,4)] toFixed3_close [OF w(5,6)]
    by blast
  obtain t h e where v: "score (computeTravelRiskScore d) = Fin t"
      "score (computeHealthInfrastructureScore d) = Fin h"
      "score (computeEnvironmentalStabilityScore d) = Fin e"
    and sb: "\<bar>t\<bar> \<le> 100" "\<bar>h\<bar> \<le> 100" "\<bar>e\<bar> \<le> 100"
    using score_within [OF travel_is_score, of d] score_within [OF health_is_score, of d]
      score_within [OF env_is_score, of d]
    unfolding bounded_by_def by blast
  obtain x where x: "js_add (js_add (js_mul (Fin t) (Fin a')) (js_mul (Fin h) (Fin b')))
                            (js_mul (Fin e) (Fin c')) = Fin x"
    using blend3_real [OF sb fb] by blast
  have g: "getDynamicWeights rt dur
             = weights_of (toFixed3 (Fin a), toFixed3 (Fin b), toFixed3 (Fin c))"
    by (simp add: getDynamicWeights_def u weights_of_def)
  have "bounded_by \<bar>x\<bar> (Fin x)" by (simp add: bounded_by_def)
  then have "is_score (clampRound (Fin x))" by (rule clampRound_score)
  moreover have "composite_score (snd (scoreCountry d rt dur)) = clampRound (Fin x)"
    by (simp only: composite_eq g composite_of_def weights_of_def prod.case weightProfile.simps
        v f x)
  ultimately show ?thesis by simp
qed

text \<open>
  Claim C6 as stated fails: \<open>getDynamicWeights\<close> rounds inside its \<open>return\<close>
  statement and \<open>scoreCountry\<close> blends with what it returns. For the dataset below
  and the profile high with long the rounded weights give 60.494, hence 60, where the
  unrounded weights give 60.5079, hence 61.
\<close>

theorem composite_unrounded_counterexample:
  "composite_score (snd (scoreCountry calm_country ''high'' ''long'')) = Fin 60
   \<and> composite_unrounded_spec calm_country ''high'' ''long'' = Fin 61"
  by (simp add: composite_eq composite_unrounded_spec_def calm_scores weights_cases
      unrounded_cases lower_literals composite_of_def weights_of_def clampRound_def fl_eval)

text \<open>
  Claim C6, amended. The weights are rounded to three decimals inside
  \<open>getDynamicWeights\<close>, and the rounded values are both what \<open>scoreCountry\<close>
  reports as \<open>dynamic_weights\<close> and what it blends the three scores with: the
  composite of every country is
  \<open>round(clamp(travelRisk * r1 + healthInfra * r2 + envStability * r3, 0, 100))\<close> with
  \<open>r1, r2, r3\<close> the reported weights. For every dataset and every profile it is an
  integer at most one unit away from the composite that the unrounded weights give.
\<close>

theorem composite_uses_rounded_weights:
  "dynamic_weights (snd (scoreCountry d rt dur)) =
     (case dynamicWeightsUnrounded rt dur of (w1, w2, w3) \<Rightarrow>
        weights_of (toFixed3 w1, toFixed3 w2, toFixed3 w3))
   \<and> composite_score (snd (scoreCountry d rt dur)) =
       composite_of (score (computeTravelRiskScore d))
                    (score (computeHealthInfrastructureScore d))
                    (score (computeEnvironmentalStabilityScore d))
                    (dynamic_weights (snd (scoreCountry d rt dur)))
   \<and> (\<exists>i j. composite_score (snd (scoreCountry d rt dur)) = Fin (real_of_int i)
            \<and> composite_unrounded_spec d rt dur = Fin (real_of_int j) \<and> \<bar>i - j\<bar> \<le> 1)"
proof -
  have "dynamic_weights (snd (scoreCountry d rt dur)) =
     (case dynamicWeightsUnrounded rt dur of (w1, w2, w3) \<Rightarrow>
        weights_of (toFixed3 w1, toFixed3 w2, toFixed3 w3))"
    by (simp add: scoreCountry_fields getDynamicWeights_def weights_of_def split: prod.splits)
  moreover have "composite_score (snd (scoreCountry d rt dur)) =
       composite_of (score (computeTravelRiskScore d))
                    (score (computeHealthInfrastructureScore d))
                    (score (computeEnvironmentalStabilityScore d))
                    (dynamic_weights (snd (scoreCountry d rt dur)))"
    by (simp only: composite_eq scoreCountry_fields)
  ultimately show ?thesis using composite_rounding_gap [of d rt dur] by blast
qed

section \<open>Properties of the cache\<close>

subsection \<open>Registrations stay consistent\<close>

lemma cons_initial: "consistent initial_world"
  by (simp add: consistent_def initial_world_def)

lemma consD1: "consistent w \<Longrightarrow> promiseKey w p = Some k \<Longrightarrow> inFlight w k = Some p"
  unfolding consistent_def by blast
lemma consD2: "consistent w \<Longrightarrow> inFlight w k = Some p \<Longrightarrow> promiseKey w p = Some k"
  unfolding consistent_def by blast
lemma consD3: "consistent w \<Longrightarrow> nextPromise w \<le> p \<Longrightarrow> promiseKey w p = None"
  unfolding consistent_def by blast

lemma cache_get_fields:
  "inFlight (snd (cache_get t k w)) = inFlight w"
  "promiseKey (snd (cache_get t k w)) = promiseKey w"
  "waiting (snd (cache_get t k w)) = waiting w"
  "replies (snd (cache_get t k w)) = replies w"
  "producerCalls (snd (cache_get t k w)) = producerCalls w"
  "nextPromise (snd (cache_get t k w)) = nextPromise w"
  by (simp_all add: cache_get_def split: option.splits)

lemma cons_cache_get: "consistent w \<Longrightarrow> consistent (snd (cache_get t k w))"
  unfolding consistent_def cache_get_fields .

lemma cache_get_store_other: "k' \<noteq> k \<Longrightarrow> store (snd (cache_get t k w)) k' = store w k'"
  by (simp add: cache_get_def split: option.splits)

lemma cache_get_miss_store: "fst (cache_get t k w) = None \<Longrightarrow> store (snd (cache_get t k w)) = (store w)(k := None)"
  by (auto simp add: cache_get_def split: option.splits if_splits)

lemma cache_get_none: "store w k = None \<Longrightarrow> cache_get t k w = (None, w)"
  by (simp add: cache_get_def)

lemma call_hit:
  "cache_get t k w = (Some v, w1) \<Longrightarrow>
   getOrFetch_call c t k w = w1\<lparr> replies := (replies w1)(c \<mapsto> (Inr v, True)) \<rparr>"
  by (simp add: getOrFetch_call_def)

lemma call_join:
  "cache_get t k w = (None, w1) \<Longrightarrow> inFlight w1 k = Some p \<Longrightarrow>
   getOrFetch_call c t k w = w1\<lparr> waiting := (waiting w1)(p := waiting w1 p @ [c]) \<rparr>"
  by (simp add: getOrFetch_call_def)

lemma call_start:
  "cache_get t k w = (None, w1) \<Longrightarrow> inFlight w1 k = None \<Longrightarrow>
   getOrFetch_call c t k w =
     w1\<lparr> producerCalls := (producerCalls w1)(k := producerCalls w1 k + 1),
         promiseKey := (promiseKey w1)(nextPromise w1 \<mapsto> k),
         inFlight := (inFlight w1)(k \<mapsto> nextPromise w1),
         waiting := (waiting w1)(nextPromise w1 := [c]),
         nextPromise := nextPromise w1 + 1 \<rparr>"
  by (simp add: getOrFetch_call_def Let_def)


lemma cons_start:
  assumes "consistent w" "inFlight w k = None"
  shows "consistent (w\<lparr> producerCalls := pc, promiseKey := (promiseKey w)(nextPromise w \<mapsto> k),
                 inFlight := (inFlight w)(k \<mapsto> nextPromise w), waiting := wt, nextPromise := nextPromise w + 1 \<rparr>)"
    (is "consistent ?w'")
proof -
  have fresh: "promiseKey w (nextPromise w) = None" using assms(1) by (rule consD3) simp
  have f: "inFlight ?w' = (inFlight w)(k \<mapsto> nextPromise w)"
    "promiseKey ?w' = (promiseKey w)(nextPromise w \<mapsto> k)"
    "nextPromise ?w' = nextPromise w + 1"
    by simp_all
  show ?thesis
    unfolding consistent_def f
  proof (intro conjI allI impI)
    fix p k' assume h: "((promiseKey w)(nextPromise w \<mapsto> k)) p = Some k'"
    show "((inFlight w)(k \<mapsto> nextPromise w)) k' = Some p"
    proof (cases "p = nextPromise w")
      case True then show ?thesis using h by simp
    next
      case False
      then have "promiseKey w p = Some k'" using h by simp
      then have "inFlight w k' = Some p" using assms(1) consD1 by blast
      then show ?thesis using assms(2) by auto
    qed
  next
    fix k' p assume h: "((inFlight w)(k \<mapsto> nextPromise w)) k' = Some p"
    show "((promiseKey w)(nextPromise w \<mapsto> k)) p = Some k'"
    proof (cases "k' = k")
      case True then show ?thesis using h by auto
    next
      case False
      then have "inFlight w k' = Some p" using h by simp
      then have "promiseKey w p = Some k'" using assms(1) consD2 by blast
      then show ?thesis using fresh by auto
    qed
  next
    fix p assume "nextPromise w + 1 \<le> p"
    then have "nextPromise w \<le> p" "p \<noteq> nextPromise w" by simp_all
    then show "((promiseKey w)(nextPromise w \<mapsto> k)) p = None"
      using consD3 [OF assms(1), of p] by simp
  qed
qed

lemma consistent_same:
  "consistent w \<Longrightarrow> inFlight w' = inFlight w \<Longrightarrow> promiseKey w' = promiseKey w \<Longrightarrow>
   nextPromise w' = nextPromise w \<Longrightarrow> consistent w'"
  unfolding consistent_def by metis

lemma cons_getOrFetch_call: 
  assumes w: "consistent w"
  shows "consistent (getOrFetch_call c t k w)"
proof -
  obtain r w1 where cg: "cache_get t k w = (r, w1)" by (cases "cache_get t k w")
  have w1: "consistent w1" using cons_cache_get [OF w, of t k] by (simp add: cg)
  show ?thesis
  proof (cases r)
    case (Some v)
    have "consistent (w1\<lparr> replies := (replies w1)(c \<mapsto> (Inr v, True)) \<rparr>)"
      by (rule consistent_same [OF w1]) simp_all
    then show ?thesis using cg Some by (simp add: call_hit)
  next
    case None
    show ?thesis
    proof (cases "inFlight w1 k")
      case (Some p)
      have "consistent (w1\<lparr> waiting := (waiting w1)(p := waiting w1 p @ [c]) \<rparr>)"
        by (rule consistent_same [OF w1]) simp_all
      then show ?thesis using cg None Some by (simp add: call_join)
    next
      case n: None
      show ?thesis using cg None n cons_start [OF w1 n] by (simp add: call_start)
    qed
  qed
qed

lemma settle_none: "promiseKey w p = None \<Longrightarrow> settle p res t w = w"
  by (simp add: settle_def)

lemma settle_some:
  "promiseKey w p = Some k \<Longrightarrow> settle p res t w =
     w\<lparr> store := (case res of Inr v \<Rightarrow> (store w)(k \<mapsto> \<lparr> data = v, expiresAt = t + TTL_MS \<rparr>) | Inl err \<Rightarrow> store w),
        inFlight := (inFlight w)(k := None),
        promiseKey := (promiseKey w)(p := None),
        replies := deliver (waiting w p) res (replies w),
        waiting := (waiting w)(p := []) \<rparr>"
  by (simp add: settle_def cache_set_def Let_def split: sum.splits)

lemma cons_settle:
  assumes w: "consistent w"
  shows "consistent (settle p res t w)"
proof (cases "promiseKey w p")
  case None
  then show ?thesis using w by (simp add: settle_none)
next
  case (Some k)
  have reg: "inFlight w k = Some p" using w Some by (rule consD1)
  let ?w' = "settle p res t w"
  have f: "inFlight ?w' = (inFlight w)(k := None)" "promiseKey ?w' = (promiseKey w)(p := None)"
    "nextPromise ?w' = nextPromise w"
    using Some by (simp_all add: settle_some)
  show ?thesis
    unfolding consistent_def f
  proof (intro conjI allI impI)
    fix q k' assume h: "((promiseKey w)(p := None)) q = Some k'"
    then have q: "q \<noteq> p" "promiseKey w q = Some k'" by (auto split: if_splits)
    then have i: "inFlight w k' = Some q" using w consD1 by blast
    then have "k' \<noteq> k" using reg q(1) by auto
    then show "((inFlight w)(k := None)) k' = Some q" using i by simp
  next
    fix k' q assume h: "((inFlight w)(k := None)) k' = Some q"
    then have q: "k' \<noteq> k" "inFlight w k' = Some q" by (auto split: if_splits)
    then have i: "promiseKey w q = Some k'" using w consD2 by blast
    then have "q \<noteq> p" using Some q(1) by auto
    then show "((promiseKey w)(p := None)) q = Some k'" using i by simp
  next
    fix q assume "nextPromise w \<le> q"
    then show "((promiseKey w)(p := None)) q = None"
      using consD3 [OF w, of q] by simp
  qed
qed

lemma cons_step: "consistent w \<Longrightarrow> consistent (step e w)"
  by (cases e) (simp_all add: cons_getOrFetch_call cons_settle)

lemma cons_run: "consistent w \<Longrightarrow> consistent (run es w)"
  by (induction es arbitrary: w) (simp_all add: cons_step)


text \<open>Every state that calls and settlements can reach is consistent.\<close>

lemma reachable_consistent: "consistent (run es initial_world)"
  by (rule cons_run) (rule cons_initial)

lemma deliver_other: "c \<notin> set cs \<Longrightarrow> deliver cs res rs c = rs c"
  by (induction cs arbitrary: rs) simp_all

lemma deliver_member: "c \<in> set cs \<Longrightarrow> deliver cs res rs c = Some (res, False)"
proof (induction cs arbitrary: rs)
  case Nil
  then show ?case by simp
next
  case (Cons a cs)
  show ?case
  proof (cases "c \<in> set cs")
    case True
    then show ?thesis using Cons.IH by simp
  next
    case False
    then have "c = a" using Cons.prems by simp
    then show ?thesis using False by (simp add: deliver_other)
  qed
qed

lemma settle_delivers:
  "promiseKey w p = Some k \<Longrightarrow> c \<in> set (waiting w p) \<Longrightarrow>
   replies (settle p res t w) c = Some (res, False)"
  by (simp add: settle_some deliver_member)

lemma settle_failure_store:
  "store (settle p (Inl err) t w) = store w"
  by (cases "promiseKey w p") (simp_all add: settle_none settle_some)

lemma settle_success_store:
  "promiseKey w p = Some k \<Longrightarrow>
   store (settle p (Inr v) t w) = (store w)(k \<mapsto> \<lparr> data = v, expiresAt = t + TTL_MS \<rparr>)"
  by (simp add: settle_some)

lemma settle_unregisters:
  "promiseKey w p = Some k \<Longrightarrow> inFlight (settle p res t w) k = None"
  by (simp add: settle_some)

lemma settle_producerCalls: "producerCalls (settle p res t w) = producerCalls w"
  by (cases "promiseKey w p") (simp_all add: settle_none settle_some)

lemma first_call:
  assumes "consistent w" "inFlight w k = None" "fst (cache_get t k w) = None"
  shows "pending_on (getOrFetch_call c t k w) k (nextPromise w)"
    and "producerCalls (getOrFetch_call c t k w) k = producerCalls w k + 1"
    and "waiting (getOrFetch_call c t k w) (nextPromise w) = [c]"
    and "store (getOrFetch_call c t k w) = (store w)(k := None)"
proof -
  obtain w1 where cg: "cache_get t k w = (None, w1)"
    using assms(3) by (cases "cache_get t k w") simp
  have f: "inFlight w1 = inFlight w" "promiseKey w1 = promiseKey w" "waiting w1 = waiting w"
    "producerCalls w1 = producerCalls w" "nextPromise w1 = nextPromise w"
    using cache_get_fields [of t k w] by (simp_all add: cg)
  have s: "store w1 = (store w)(k := None)"
    using cache_get_miss_store [OF assms(3)] by (simp add: cg)
  have n: "inFlight w1 k = None" using assms(2) f by simp
  note e = call_start [OF cg n, of c]
  show "pending_on (getOrFetch_call c t k w) k (nextPromise w)"
    by (simp add: e pending_on_def f s)
  show "producerCalls (getOrFetch_call c t k w) k = producerCalls w k + 1"
    by (simp add: e f)
  show "waiting (getOrFetch_call c t k w) (nextPromise w) = [c]"
    by (simp add: e f)
  show "store (getOrFetch_call c t k w) = (store w)(k := None)"
    by (simp add: e s)
qed

lemma join_call:
  assumes "pending_on w k p"
  shows "getOrFetch_call c t k w = w\<lparr> waiting := (waiting w)(p := waiting w p @ [c]) \<rparr>"
proof -
  have "cache_get t k w = (None, w)" using assms by (simp add: pending_on_def cache_get_none)
  then show ?thesis using assms by (simp add: call_join pending_on_def)
qed

lemma other_call:
  assumes w: "consistent w" and p: "pending_on w k p" and ne: "k' \<noteq> k"
  shows "pending_on (getOrFetch_call c t k' w) k p"
    and "producerCalls (getOrFetch_call c t k' w) k = producerCalls w k"
    and "set (waiting w p) \<subseteq> set (waiting (getOrFetch_call c t k' w) p)"
proof -
  obtain r w1 where cg: "cache_get t k' w = (r, w1)" by (cases "cache_get t k' w")
  have f: "inFlight w1 = inFlight w" "promiseKey w1 = promiseKey w" "waiting w1 = waiting w"
    "producerCalls w1 = producerCalls w" "nextPromise w1 = nextPromise w"
    using cache_get_fields [of t k' w] by (simp_all add: cg)
  have s: "store w1 k = store w k"
    using cache_get_store_other [of k k' t w] ne by (simp add: cg)
  have p1: "pending_on w1 k p" using p by (simp add: pending_on_def f s)
  have fresh: "p \<noteq> nextPromise w"
    using consD3 [OF w, of "nextPromise w"] p by (auto simp: pending_on_def)
  have "pending_on (getOrFetch_call c t k' w) k p
      \<and> producerCalls (getOrFetch_call c t k' w) k = producerCalls w k
      \<and> set (waiting w p) \<subseteq> set (waiting (getOrFetch_call c t k' w) p)"
  proof (cases r)
    case (Some v)
    then show ?thesis using cg p1 by (simp add: call_hit pending_on_def f)
  next
    case None
    show ?thesis
    proof (cases "inFlight w1 k'")
      case (Some q)
      then show ?thesis using cg None p1 by (auto simp: call_join pending_on_def f)
    next
      case n: None
      show ?thesis using cg None n p1 ne fresh by (simp add: call_start pending_on_def f)
    qed
  qed
  then show "pending_on (getOrFetch_call c t k' w) k p"
    and "producerCalls (getOrFetch_call c t k' w) k = producerCalls w k"
    and "set (waiting w p) \<subseteq> set (waiting (getOrFetch_call c t k' w) p)"
    by simp_all
qed

lemma other_settle:
  assumes w: "consistent w" and p: "pending_on w k p" and ne: "q \<noteq> p"
  shows "pending_on (settle q res t w) k p"
    and "waiting (settle q res t w) p = waiting w p"
proof -
  have "pending_on (settle q res t w) k p \<and> waiting (settle q res t w) p = waiting w p"
  proof (cases "promiseKey w q")
    case None
    then show ?thesis using p by (simp add: settle_none)
  next
    case (Some k')
    have "inFlight w k' = Some q" using w Some by (rule consD1)
    then have "k' \<noteq> k" using p ne by (auto simp: pending_on_def)
    then show ?thesis using Some p ne
      by (simp add: settle_some pending_on_def split: sum.splits)
  qed
  then show "pending_on (settle q res t w) k p"
    and "waiting (settle q res t w) p = waiting w p" by simp_all
qed

lemma pending_step:
  assumes w: "consistent w" and p: "pending_on w k p" and e: "\<not> is_settle_of p e"
  shows "pending_on (step e w) k p
       \<and> producerCalls (step e w) k = producerCalls w k
       \<and> set (waiting w p) \<union> set_option (calls_key k e) \<subseteq> set (waiting (step e w) p)"
proof (cases e)
  case (Call c k' t)
  show ?thesis
  proof (cases "k' = k")
    case True
    then show ?thesis using Call p by (auto simp: join_call pending_on_def)
  next
    case False
    then show ?thesis using Call other_call [OF w p False, of c t] by simp
  qed
next
  case (Settle q res t)
  then have "q \<noteq> p" using e by simp
  then show ?thesis using Settle other_settle [OF w p, of q res t]
    by (simp add: settle_producerCalls)
qed

lemma callers_of_Cons:
  "set (callers_of k (e # es)) = set_option (calls_key k e) \<union> set (callers_of k es)"
  by (cases "calls_key k e") (simp_all add: callers_of_def List.map_filter_simps)

lemma pending_run:
  assumes "consistent w" "pending_on w k p" "\<forall>e \<in> set es. \<not> is_settle_of p e"
  shows "pending_on (run es w) k p \<and> consistent (run es w)
       \<and> producerCalls (run es w) k = producerCalls w k
       \<and> set (waiting w p) \<union> set (callers_of k es) \<subseteq> set (waiting (run es w) p)"
  using assms
proof (induction es arbitrary: w)
  case Nil
  then show ?case by (simp add: callers_of_def List.map_filter_simps)
next
  case (Cons e es)
  have e: "\<not> is_settle_of p e" and es: "\<forall>e \<in> set es. \<not> is_settle_of p e"
    using Cons.prems(3) by simp_all
  note st = pending_step [OF Cons.prems(1) Cons.prems(2) e]
  have c: "consistent (step e w)" using Cons.prems(1) by (rule cons_step)
  have ih: "pending_on (run es (step e w)) k p \<and> consistent (run es (step e w))
       \<and> producerCalls (run es (step e w)) k = producerCalls (step e w) k
       \<and> set (waiting (step e w) p) \<union> set (callers_of k es) \<subseteq> set (waiting (run es (step e w)) p)"
    using Cons.IH [OF c _ es] st by blast
  show ?case using ih st by (auto simp: callers_of_Cons)
qed

subsection \<open>Coalescing and failure\<close>

lemma scenario:
  assumes w: "consistent w" and n: "inFlight w k = None" and m: "fst (cache_get t0 k w) = None"
    and es: "\<forall>e \<in> set es. \<not> is_settle_of (nextPromise w) e"
  shows "pending_on (run (Call c0 k t0 # es) w) k (nextPromise w)"
    and "consistent (run (Call c0 k t0 # es) w)"
    and "producerCalls (run (Call c0 k t0 # es) w) k = producerCalls w k + 1"
    and "set (c0 # callers_of k es) \<subseteq> set (waiting (run (Call c0 k t0 # es) w) (nextPromise w))"
proof -
  let ?w1 = "getOrFetch_call c0 t0 k w"
  note fc = first_call [OF w n m, of c0]
  have c1: "consistent ?w1" using w by (rule cons_getOrFetch_call)
  note pr = pending_run [OF c1 fc(1) es]
  show "pending_on (run (Call c0 k t0 # es) w) k (nextPromise w)" using pr by simp
  show "consistent (run (Call c0 k t0 # es) w)" using pr by simp
  show "producerCalls (run (Call c0 k t0 # es) w) k = producerCalls w k + 1"
    using pr fc(2) by simp
  show "set (c0 # callers_of k es) \<subseteq> set (waiting (run (Call c0 k t0 # es) w) (nextPromise w))"
    using pr fc(3) by simp
qed

lemma herd_facts:
  "callers_of ''country:japan'' herd = [2, 4]"
  "\<forall>e \<in> set herd. \<not> is_settle_of 0 e"
  by (simp_all add: herd_def callers_of_def List.map_filter_simps)

lemma initial_facts:
  "inFlight (initial_world :: (string, nat) world) k = None"
  "fst (cache_get t k (initial_world :: (string, nat) world)) = None"
  "nextPromise (initial_world :: (string, nat) world) = 0"
  "producerCalls (initial_world :: (string, nat) world) k = 0"
  by (simp_all add: initial_world_def cache_get_def)

text \<open>
  Claim C3. Take any consistent state in which key \<open>k\<close> has no registration and a
  first \<open>getOrFetch\<close> on \<open>k\<close> that misses. Let any events follow while its producer
  is pending, among them any number of further calls on \<open>k\<close>. Then the producer of
  \<open>k\<close> has been invoked exactly once, before and after it settles, and when it
  settles with value \<open>v\<close> the first caller and every caller that joined resolve to
  \<open>v\<close> with \<open>cacheHit = false\<close>, and \<open>v\<close> is stored for 60 minutes.
\<close>

theorem coalescing:
  assumes "consistent w" and "inFlight w k = None" and "fst (cache_get t0 k w) = None"
    and "\<forall>e \<in> set es. \<not> is_settle_of (nextPromise w) e"
  shows "(let w2 = run (Call c0 k t0 # es) w;
              w3 = settle (nextPromise w) (Inr v) t1 w2
          in producerCalls w2 k = producerCalls w k + 1
             \<and> producerCalls w3 k = producerCalls w k + 1
             \<and> (\<forall>c \<in> set (c0 # callers_of k es). replies w3 c = Some (Inr v, False))
             \<and> store w3 k = Some \<lparr> data = v, expiresAt = t1 + TTL_MS \<rparr>)"
proof -
  note sc = scenario [OF assms, of c0]
  have pk: "promiseKey (run (Call c0 k t0 # es) w) (nextPromise w) = Some k"
    using sc(1) by (simp add: pending_on_def)
  note stored = settle_success_store [OF pk, of v t1]
  have "\<forall>c \<in> set (c0 # callers_of k es).
          replies (settle (nextPromise w) (Inr v) t1 (run (Call c0 k t0 # es) w)) c
            = Some (Inr v, False)"
    using sc(4) settle_delivers [OF pk] by blast
  then show ?thesis using sc(3) stored by (simp add: Let_def settle_producerCalls)
qed

theorem coalescing_witness:
  "inFlight (initial_world :: (string, nat) world) ''country:japan'' = None
   \<and> fst (cache_get 1000 ''country:japan'' (initial_world :: (string, nat) world)) = None
   \<and> callers_of ''country:japan'' herd = [2, 4]
   \<and> producerCalls (run (Call 1 ''country:japan'' 1000 # herd) (initial_world :: (string, nat) world))
         ''country:japan'' = 1
   \<and> replies (settle 0 (Inr 7) 5000 (run (Call 1 ''country:japan'' 1000 # herd) initial_world)) 1
        = Some (Inr 7, False)
   \<and> replies (settle 0 (Inr 7) 5000 (run (Call 1 ''country:japan'' 1000 # herd) initial_world)) 2
        = Some (Inr 7, False)
   \<and> replies (settle 0 (Inr 7) 5000 (run (Call 1 ''country:japan'' 1000 # herd) initial_world)) 4
        = Some (Inr 7, False)"
  using coalescing [of "initial_world :: (string, nat) world" "''country:japan''" 1000 herd 1 7 5000]
    cons_initial [where ?'a = string and ?'b = nat]
  by (simp add: initial_facts herd_facts Let_def)

lemma quiet_run:
  assumes "pending_on w k p" "\<forall>e \<in> set es. calls_key k e \<noteq> None"
  shows "store (run es w) = store w \<and> pending_on (run es w) k p"
  using assms
proof (induction es arbitrary: w)
  case Nil
  then show ?case by simp
next
  case (Cons e es)
  obtain c t where e: "e = Call c k t"
    using Cons.prems(2) by (cases e) (auto split: if_splits)
  have s: "step e w = w\<lparr> waiting := (waiting w)(p := waiting w p @ [c]) \<rparr>"
    using e join_call [OF Cons.prems(1)] by simp
  have p: "pending_on (step e w) k p" using Cons.prems(1) by (simp add: s pending_on_def)
  have "store (run es (step e w)) = store (step e w) \<and> pending_on (run es (step e w)) k p"
    using Cons.IH [OF p] Cons.prems(2) by simp
  then show ?case by (simp add: s)
qed

lemma stale_facts:
  "consistent stale_world"
  "inFlight stale_world k = None"
  "nextPromise stale_world = 0"
  "producerCalls stale_world k = 0"
  "fst (cache_get 4000000 ''country:japan'' stale_world) = None"
  "store stale_world = [''country:japan'' \<mapsto> \<lparr> data = 7, expiresAt = 3600000 \<rparr>]"
proof -
  show "consistent stale_world"
    unfolding stale_world_def
    by (rule consistent_same [OF cons_initial]) (simp_all add: cache_set_def)
qed (simp_all add: stale_world_def cache_set_def cache_get_def initial_world_def TTL_MS_def)

lemma joiners_facts:
  "callers_of ''country:japan'' joiners = [2, 3]"
  "\<forall>e \<in> set joiners. \<not> is_settle_of 0 e"
  "\<forall>e \<in> set joiners. calls_key ''country:japan'' e \<noteq> None"
  by (simp_all add: joiners_def callers_of_def List.map_filter_simps)

text \<open>
  Claim C5 as stated fails in one point: the store is not always unchanged by the
  failed attempt. When the key has an expired entry, the lookup that opens the attempt
  deletes it, so the store after the rejection differs from the store before the call.
\<close>

theorem failed_attempt_evicts_counterexample:
  "fst (cache_get 4000000 ''country:japan'' stale_world) = None
   \<and> store stale_world ''country:japan'' = Some \<lparr> data = 7, expiresAt = 3600000 \<rparr>
   \<and> store (settle 0 (Inl ''timeout'') 4000100
              (run (Call 1 ''country:japan'' 4000000 # joiners) stale_world)) ''country:japan'' = None
   \<and> store (settle 0 (Inl ''timeout'') 4000100
              (run (Call 1 ''country:japan'' 4000000 # joiners) stale_world)) \<noteq> store stale_world"
proof -
  let ?w3 = "settle 0 (Inl ''timeout'') 4000100 (run (Call 1 ''country:japan'' 4000000 # joiners) stale_world)"
  note fc = first_call [OF stale_facts(1) stale_facts(2) stale_facts(5), of 1, unfolded stale_facts(3)]
  have q: "store (run joiners (getOrFetch_call 1 4000000 ''country:japan'' stale_world))
             = store (getOrFetch_call 1 4000000 ''country:japan'' stale_world)"
    using quiet_run [OF fc(1) joiners_facts(3)] by simp
  have s: "store ?w3 = (store stale_world)(''country:japan'' := None)"
    using q fc(4) by (simp add: settle_failure_store)
  have "store ?w3 ''country:japan'' \<noteq> store stale_world ''country:japan''"
    unfolding s by (simp add: stale_facts)
  then have "store ?w3 \<noteq> store stale_world" by metis
  then show ?thesis using s by (simp add: stale_facts)
qed

text \<open>
  Claim C5, amended. Take any consistent state in which key \<open>k\<close> has no registration
  and a first \<open>getOrFetch\<close> on \<open>k\<close> that misses; let any events follow while its
  producer is pending, and let the producer reject with \<open>err\<close>. Then the rejection
  writes nothing and leaves the store as it was, the key has no entry and no
  registration afterwards, and when only calls on \<open>k\<close> happened in between, the store
  after the attempt is the store before it without the entry of \<open>k\<close>: the only change
  is the eviction of an expired entry by the lookup. The first caller and every caller
  that joined are rejected with \<open>err\<close>, and the next \<open>getOrFetch\<close> on the key invokes
  the producer again.
\<close>

theorem failed_fetch_not_cached:
  assumes "consistent w" and "inFlight w k = None" and "fst (cache_get t0 k w) = None"
    and "\<forall>e \<in> set es. \<not> is_settle_of (nextPromise w) e"
  shows "(let w2 = run (Call c0 k t0 # es) w;
              w3 = settle (nextPromise w) (Inl err) t1 w2
          in store w3 = store w2 \<and> store w3 k = None \<and> inFlight w3 k = None
             \<and> ((\<forall>e \<in> set es. calls_key k e \<noteq> None) \<longrightarrow> store w3 = (store w)(k := None))
             \<and> (\<forall>c \<in> set (c0 # callers_of k es). replies w3 c = Some (Inl err, False))
             \<and> producerCalls w3 k = producerCalls w k + 1
             \<and> producerCalls (getOrFetch_call c t2 k w3) k = producerCalls w k + 2)"
proof -
  let ?w1 = "getOrFetch_call c0 t0 k w"
  let ?w2 = "run (Call c0 k t0 # es) w"
  let ?w3 = "settle (nextPromise w) (Inl err) t1 ?w2"
  note sc = scenario [OF assms, of c0]
  note fc = first_call [OF assms(1) assms(2) assms(3), of c0]
  have pk: "promiseKey ?w2 (nextPromise w) = Some k" and st: "store ?w2 k = None"
    using sc(1) by (simp_all add: pending_on_def)
  have s3: "store ?w3 = store ?w2" by (rule settle_failure_store)
  have i3: "inFlight ?w3 k = None" using pk by (rule settle_unregisters)
  have c3: "consistent ?w3" using sc(2) by (rule cons_settle)
  have r: "\<forall>c \<in> set (c0 # callers_of k es). replies ?w3 c = Some (Inl err, False)"
    using sc(4) settle_delivers [OF pk] by blast
  have m3: "fst (cache_get t2 k ?w3) = None" using st s3 by (simp add: cache_get_none)
  have again: "producerCalls (getOrFetch_call c t2 k ?w3) k = producerCalls ?w3 k + 1"
    using first_call(2) [OF c3 i3 m3] .
  have alone: "(\<forall>e \<in> set es. calls_key k e \<noteq> None) \<longrightarrow> store ?w3 = (store w)(k := None)"
  proof
    assume q: "\<forall>e \<in> set es. calls_key k e \<noteq> None"
    have "store (run es ?w1) = store ?w1" using quiet_run [OF fc(1) q] by simp
    then show "store ?w3 = (store w)(k := None)" using s3 fc(4) by simp
  qed
  show ?thesis using alone s3 st i3 r again sc(3) by (simp add: Let_def settle_producerCalls)
qed

theorem failed_fetch_not_cached_witness:
  "fst (cache_get 4000000 ''country:japan'' stale_world) = None
   \<and> callers_of ''country:japan'' joiners = [2, 3]
   \<and> store (settle 0 (Inl ''timeout'') 4000100 (run (Call 1 ''country:japan'' 4000000 # joiners) stale_world))
        = (store stale_world)(''country:japan'' := None)
   \<and> replies (settle 0 (Inl ''timeout'') 4000100 (run (Call 1 ''country:japan'' 4000000 # joiners) stale_world)) 1
        = Some (Inl ''timeout'', False)
   \<and> replies (settle 0 (Inl ''timeout'') 4000100 (run (Call 1 ''country:japan'' 4000000 # joiners) stale_world)) 3
        = Some (Inl ''timeout'', False)
   \<and> producerCalls (getOrFetch_call 5 4000200 ''country:japan''
         (settle 0 (Inl ''timeout'') 4000100 (run (Call 1 ''country:japan'' 4000000 # joiners) stale_world)))
        ''country:japan'' = 2"
  using failed_fetch_not_cached [of stale_world "''country:japan''" 4000000 joiners 1 "''timeout''" 4000100 5 4000200]
  by (auto simp: stale_facts joiners_facts Let_def numeral_2_eq_2)

subsection \<open>Expiry and aliasing\<close>

lemma sixty_minutes:
  "t0 + 59 * 60 * 1000 \<le> t0 + TTL_MS" "t0 + 61 * 60 * 1000 > t0 + TTL_MS"
  by (simp_all add: TTL_MS_def)

text \<open>
  Claim C8. An entry written at \<open>t0\<close> is a hit for \<open>get\<close> and for \<open>getOrFetch\<close>
  59 minutes later, and neither changes the store. 61 minutes after \<open>t0\<close>,
  \<open>get\<close> reports a miss and deletes the entry; \<open>getOrFetch\<close> deletes the entry,
  answers nothing from the cache and suspends the caller on a fetch for the key.
\<close>

theorem ttl_sixty_minutes:
  "(let w1 = cache_set t0 k v w;
        early = t0 + 59 * 60 * 1000;
        late = t0 + 61 * 60 * 1000
    in cache_get early k w1 = (Some v, w1)
       \<and> fst (cache_get late k w1) = None
       \<and> store (snd (cache_get late k w1)) k = None
       \<and> replies (getOrFetch_call c early k w1) c = Some (Inr v, True)
       \<and> store (getOrFetch_call c early k w1) = store w1
       \<and> store (getOrFetch_call c late k w1) k = None
       \<and> replies (getOrFetch_call c late k w1) = replies w1
       \<and> (\<exists>p. inFlight (getOrFetch_call c late k w1) k = Some p
                \<and> c \<in> set (waiting (getOrFetch_call c late k w1) p)))"
proof -
  let ?w1 = "cache_set t0 k v w"
  let ?early = "t0 + 59 * 60 * 1000"
  let ?late = "t0 + 61 * 60 * 1000"
  let ?w2 = "?w1\<lparr> store := (store ?w1)(k := None) \<rparr>"
  have hit: "cache_get ?early k ?w1 = (Some v, ?w1)"
    using sixty_minutes(1) [of t0] by (simp add: cache_get_def cache_set_def)
  have miss: "cache_get ?late k ?w1 = (None, ?w2)"
    using sixty_minutes(2) [of t0] by (simp add: cache_get_def cache_set_def)
  have a: "replies (getOrFetch_call c ?early k ?w1) c = Some (Inr v, True)"
    "store (getOrFetch_call c ?early k ?w1) = store ?w1"
    unfolding call_hit [OF hit] by simp_all
  have b: "store (getOrFetch_call c ?late k ?w1) k = None
         \<and> replies (getOrFetch_call c ?late k ?w1) = replies ?w1
         \<and> (\<exists>p. inFlight (getOrFetch_call c ?late k ?w1) k = Some p
                \<and> c \<in> set (waiting (getOrFetch_call c ?late k ?w1) p))"
  proof (cases "inFlight ?w2 k")
    case None
    show ?thesis unfolding call_start [OF miss None] by simp
  next
    case (Some p)
    have "inFlight ?w1 k = Some p" using Some by simp
    then show ?thesis unfolding call_join [OF miss Some] by (intro conjI exI [of _ p]) simp_all
  qed
  show ?thesis using hit miss a b by (simp add: Let_def)
qed

lemma scoreCountry_fst:
  "fst (scoreCountry d rt dur) = d\<lparr> riskTolerance_meta := Some rt, duration_meta := Some dur \<rparr>"
  by (simp add: scoreCountry_def Let_def)

lemma scoreCountry_at_heap:
  "h r = Some d \<Longrightarrow>
   fst (scoreCountry_at h r rt dur) =
     h(r \<mapsto> d\<lparr> riskTolerance_meta := Some rt, duration_meta := Some dur \<rparr>)"
  using scoreCountry_fst [of d rt dur]
  by (cases "scoreCountry d rt dur") (simp add: scoreCountry_at_def)

text \<open>
  Claim C2 as stated fails: \<open>getOrFetch\<close> hands out the cached reference, and
  \<open>scoreCountry\<close> assigns \<open>_riskTolerance\<close> and \<open>_duration\<close> of the object behind
  it, so the cached value is no longer the value that was stored.
\<close>

theorem cached_value_mutated_counterexample:
  "replies (getOrFetch_call 7 1000 ''country:atlantis'' cached_world) 7 = Some (Inr 0, True)
   \<and> cached_heap 0 = Some absent_country
   \<and> fst (scoreCountry_at cached_heap 0 ''low'' ''long'') 0 \<noteq> cached_heap 0
   \<and> map_option riskTolerance_meta (cached_heap 0) = Some None
   \<and> map_option riskTolerance_meta (fst (scoreCountry_at cached_heap 0 ''low'' ''long'') 0)
        = Some (Some ''low'')"
proof -
  have h: "cached_heap 0 = Some absent_country" by (simp add: cached_heap_def)
  have "cache_get 1000 ''country:atlantis'' cached_world = (Some 0, cached_world)"
    by (simp add: cached_world_def cache_get_def cache_set_def TTL_MS_def)
  then have r: "replies (getOrFetch_call 7 1000 ''country:atlantis'' cached_world) 7 = Some (Inr 0, True)"
    by (simp add: call_hit)
  show ?thesis using r h
    by (simp add: scoreCountry_at_heap [of cached_heap 0 absent_country] absent_country_def)
qed

lemma stamp_stamp: "stamp rt dur (stamp rt dur d) = stamp rt dur d"
  by (simp add: stamp_def)

lemma scoreCountry_at_stamp:
  "fst (scoreCountry_at h r rt dur) = (\<lambda>x. if x = r then map_option (stamp rt dur) (h x) else h x)"
proof (cases "h r")
  case None
  then show ?thesis by (auto simp: scoreCountry_at_def)
next
  case (Some d)
  show ?thesis using scoreCountry_at_heap [of h r d rt dur] Some
    by (auto simp: stamp_def)
qed

lemma scoreAll_heap:
  "fst (scoreAll h rs rt dur) =
     (\<lambda>x. if x \<in> set rs then map_option (stamp rt dur) (h x) else h x)"
proof (induction rs arbitrary: h)
  case Nil
  then show ?case by simp
next
  case (Cons r rs)
  let ?h1 = "fst (scoreCountry_at h r rt dur)"
  have step: "fst (scoreAll h (r # rs) rt dur) = fst (scoreAll ?h1 rs rt dur)"
    by (cases "scoreCountry_at h r rt dur"; cases "snd (scoreCountry_at h r rt dur)")
       (auto split: prod.splits)
  have ih: "fst (scoreAll ?h1 rs rt dur) =
      (\<lambda>x. if x \<in> set rs then map_option (stamp rt dur) (?h1 x) else ?h1 x)"
    by (rule Cons.IH)
  have h1: "?h1 = (\<lambda>x. if x = r then map_option (stamp rt dur) (h x) else h x)"
    by (rule scoreCountry_at_stamp)
  show ?case
    unfolding step ih unfolding h1
    by (auto simp: fun_eq_iff stamp_stamp option.map_comp comp_def)
qed

text \<open>
  Claim C2, amended. The steps of the handler after the fan-out change the heap in one
  way only: every valid object is stamped, that is, \<open>scoreCountry\<close> assigns its
  properties \<open>_riskTolerance\<close> and \<open>_duration\<close>. Every other field of a cached value,
  and every cached value that is not scored, stays as it was stored; filtering,
  ranking and building the response modify nothing. The cache operations themselves
  never look inside a value: they hold no heap.
\<close>

theorem pipeline_assigns_only_metadata:
  "fst (analyze_finish h allData rt dur) =
     (\<lambda>r. if r \<in> set (validData h allData) then map_option (stamp rt dur) (h r) else h r)"
proof (cases "validData h allData = []")
  case True
  then show ?thesis by (simp add: analyze_finish_def)
next
  case False
  then show ?thesis
    using scoreAll_heap [of h "validData h allData" rt dur]
    by (cases "scoreAll h (validData h allData) rt dur") (simp add: analyze_finish_def)
qed

section \<open>Properties of the analyze route\<close>

lemma set_add_all_firsts:
  "set_add_all seen xs = seen @ firsts (filter (\<lambda>x. x \<notin> set seen) xs)"
proof (induction xs arbitrary: seen)
  case Nil
  then show ?case by simp
next
  case (Cons x xs)
  show ?case
  proof (cases "x \<in> set seen")
    case True
    then show ?thesis using Cons.IH [of seen] by simp
  next
    case False
    have "filter (\<lambda>y. y \<notin> set (seen @ [x])) xs
        = filter (\<lambda>y. y \<noteq> x) (filter (\<lambda>y. y \<notin> set seen) xs)"
      by (induction xs) auto
    then show ?thesis using False Cons.IH [of "seen @ [x]"] by simp
  qed
qed

lemma uniqueCountries_firsts: "uniqueCountries names = firsts (map trim names)"
  by (simp add: uniqueCountries_def set_add_all_firsts)

lemma set_firsts: "set (firsts xs) = set xs"
  by (induction xs rule: firsts.induct) auto

lemma distinct_firsts: "distinct (firsts xs)"
  by (induction xs rule: firsts.induct) (auto simp: set_firsts)

lemma uniqueCountries_exact:
  "distinct (uniqueCountries names) \<and> set (uniqueCountries names) = set (map trim names)"
  by (simp add: uniqueCountries_firsts distinct_firsts set_firsts)

lemma countriesErrors_empty:
  "countriesErrors cs = [] \<longleftrightarrow>
     (case cs of
        JArray xs \<Rightarrow> 3 \<le> length xs \<and> length xs \<le> 10 \<and> \<not> list_ex badEntry xs
      | _ \<Rightarrow> False)"
  by (auto simp: countriesErrors_def MIN_COUNTRIES_def MAX_COUNTRIES_def split: json.splits)

lemma optLowerCase_includes:
  "optLowerCase j = Inr r \<Longrightarrow>
   js_includes V r \<longleftrightarrow> (case j of JString s \<Rightarrow> toLowerCase s \<in> set V | _ \<Rightarrow> False)"
  by (cases j) (auto simp: js_includes_def split: option.splits json.splits)

lemma validateInput_accepts:
  assumes "optLowerCase (riskTolerance b) = Inr r" "optLowerCase (duration b) = Inr d"
  shows "\<exists>errs. validateInput b = Inr errs \<and> (errs = [] \<longleftrightarrow> acceptable b)"
  using assms optLowerCase_includes [OF assms(1), of VALID_RISK]
    optLowerCase_includes [OF assms(2), of VALID_DURATION]
    countriesErrors_empty [of "countries b"]
  by (auto simp: validateInput_def acceptable_def Let_def)

lemma validation_rejects:
  assumes "\<not> acceptable b"
    and "optLowerCase (riskTolerance b) \<noteq> Inl TypeError"
    and "optLowerCase (duration b) \<noteq> Inl TypeError"
  shows "\<exists>errs. errs \<noteq> [] \<and> analyze b = Respond400 errs"
proof -
  obtain r where r: "optLowerCase (riskTolerance b) = Inr r"
    using assms(2) by (cases "optLowerCase (riskTolerance b)") (auto intro: js_error.exhaust)
  obtain d where d: "optLowerCase (duration b) = Inr d"
    using assms(3) by (cases "optLowerCase (duration b)") (auto intro: js_error.exhaust)
  obtain errs where e: "validateInput b = Inr errs" "errs = [] \<longleftrightarrow> acceptable b"
    using validateInput_accepts [OF r d] by blast
  then have "errs \<noteq> []" using assms(1) by simp
  then show ?thesis using e(1) by (simp add: analyze_def)
qed

text \<open>
  Claim C4: the list of unique names that the route fetches holds no two entries equal
  up to letter case, in the order of their first occurrence. The code misses the first
  half. The route removes duplicates with \<open>new Set\<close> over the trimmed names, which
  compares strings exactly; the comment above that line announces a case-insensitive
  deduplication. For the request that names Germany twice in two
  letter cases both spellings survive, although they are equal up to case, and both are
  fetched under the same cache key. What the code does guarantee is
  \<open>uniqueCountries_firsts\<close>: exact duplicates are removed and first-seen order is kept.
\<close>

theorem dedup_is_case_sensitive:
  "toLowerCase ''Germany'' = toLowerCase ''germany'' \<and>
   analyze twice_body =
     Fetch ''low'' ''short''
       [(''Germany'', ''country:germany''), (''germany'', ''country:germany''),
        (''Japan'', ''country:japan'')]"
  by code_simp

text \<open>
  Claim C10: every body that is not acceptable is answered with status 400 and the
  list of error messages, and nothing is fetched, cached or scored. The code does so
  (\<open>validation_rejects\<close>: status 400 with a non-empty error list), unless its
  \<open>riskTolerance\<close> or \<open>duration\<close> is an object with a member \<open>toLowerCase\<close> that
  is neither nullish nor a function. The optional call in \<open>validateInput\<close> then
  throws a \<open>TypeError\<close>, and the handler ends without the 400 response. The request
  below has three good countries, a good duration and such a \<open>riskTolerance\<close>.
\<close>

theorem validation_throws:
  "validateInput member_body = Inl TypeError \<and> analyze member_body = Thrown TypeError"
  by (simp add: validateInput_def analyze_def member_body_def Let_def)

end
